theory Spec2Isabelle
  imports Complex_Main "HOL-Library.List_Lexorder"
begin

section \<open>Container and random-number primitives used by the program\<close>

text \<open>
  The program is written against the Stanford collection classes. A \<open>Set<T>\<close> is an
  ordered set: it iterates in ascending order, \<open>first()\<close> is its least element, and
  \<open>add\<close>/\<open>remove\<close> of an element that is already present/absent change nothing. It is
  modelled by the list of its elements in iteration order; the functions below keep
  that list ascending and duplicate-free, and the theorems hold for every list.
  A \<open>Vector<T>\<close> is a list indexed from 0 whose \<open>get\<close> and \<open>remove\<close> raise an error on
  an index out of range.

  The C++ \<open>int\<close> has 32 bits: the result of every addition, subtraction and
  multiplication of the program is reduced to the two's-complement range by \<open>int32\<close>.
  Integer division truncates towards zero; a zero divisor is reported as the error
  \<open>DivisionByZero\<close>. The C++ \<open>double\<close> is the binary64 format: a finite value, an
  infinity or NaN, every operation rounded to the nearest representable value, ties to
  the even significand.
\<close>

subsection \<open>32-bit integers\<close>

definition int32 :: "int \<Rightarrow> int" where
  "int32 x = (x + 2 ^ 31) mod 2 ^ 32 - 2 ^ 31"

definition inIntRange :: "int \<Rightarrow> bool" where
  "inIntRange x = (- (2 ^ 31) \<le> x \<and> x < 2 ^ 31)"

subsection \<open>Double-precision numbers\<close>

text \<open>
  The zero of either sign is \<open>Finite 0\<close>: the program adds, subtracts, multiplies and
  compares, and no result of these depends on the sign of a zero.
\<close>

datatype double = Finite real | PosInf | NegInf | NaN

function bitLength :: "int \<Rightarrow> int" where
  "bitLength n = (if n \<le> 0 then 0 else 1 + bitLength (n div 2))"
  by pat_completeness auto

termination bitLength
  by (relation "measure nat") auto

declare bitLength.simps [simp del]

definition pow2 :: "int \<Rightarrow> real" where
  "pow2 k = (if 0 \<le> k then 2 ^ nat k else 1 / 2 ^ nat (- k))"

text \<open>The exponent \<open>e\<close> of a positive number \<open>x\<close>: \<open>2 ^ e \<le> x < 2 ^ (e + 1)\<close>.\<close>

definition binaryExponent :: "real \<Rightarrow> int" where
  "binaryExponent x =
     (if 1 \<le> x then bitLength \<lfloor>x\<rfloor> - 1
      else - bitLength (\<lceil>1 / x\<rceil> - 1))"

definition roundHalfEven :: "real \<Rightarrow> int" where
  "roundHalfEven z =
     (let f = \<lfloor>z\<rfloor>; d = z - real_of_int f
      in if d < 1 / 2 then f else if 1 / 2 < d then f + 1 else if even f then f else f + 1)"

text \<open>
  Rounding of a real number to binary64: 53 significant bits, the least exponent
  \<open>- 1022\<close> (below it the spacing stays \<open>2 ^ (- 1074)\<close>), and an infinity when the
  rounded value reaches \<open>2 ^ 1024\<close>.
\<close>

definition roundDouble :: "real \<Rightarrow> double" where
  "roundDouble x =
     (if x = 0 then Finite 0
      else let e = max (binaryExponent \<bar>x\<bar>) (- 1022);
               ulp = pow2 (e - 52);
               y = real_of_int (roundHalfEven (x / ulp)) * ulp
           in if 1023 < e \<or> (e = 1023 \<and> \<bar>roundHalfEven (x / ulp)\<bar> = 2 ^ 53)
              then (if 0 < x then PosInf else NegInf)
              else Finite y)"

fun dadd :: "double \<Rightarrow> double \<Rightarrow> double" where
  "dadd (Finite a) (Finite b) = roundDouble (a + b)"
| "dadd NaN _ = NaN"
| "dadd _ NaN = NaN"
| "dadd PosInf NegInf = NaN"
| "dadd NegInf PosInf = NaN"
| "dadd PosInf _ = PosInf"
| "dadd NegInf _ = NegInf"
| "dadd _ PosInf = PosInf"
| "dadd _ NegInf = NegInf"

fun dneg :: "double \<Rightarrow> double" where
  "dneg (Finite a) = Finite (- a)"
| "dneg PosInf = NegInf"
| "dneg NegInf = PosInf"
| "dneg NaN = NaN"

definition dsub :: "double \<Rightarrow> double \<Rightarrow> double" where
  "dsub a b = dadd a (dneg b)"

definition infTimes :: "real \<Rightarrow> double" where
  "infTimes a = (if 0 < a then PosInf else if a < 0 then NegInf else NaN)"

fun dmul :: "double \<Rightarrow> double \<Rightarrow> double" where
  "dmul (Finite a) (Finite b) = roundDouble (a * b)"
| "dmul NaN _ = NaN"
| "dmul _ NaN = NaN"
| "dmul PosInf (Finite a) = infTimes a"
| "dmul (Finite a) PosInf = infTimes a"
| "dmul NegInf (Finite a) = infTimes (- a)"
| "dmul (Finite a) NegInf = infTimes (- a)"
| "dmul PosInf PosInf = PosInf"
| "dmul NegInf NegInf = PosInf"
| "dmul PosInf NegInf = NegInf"
| "dmul NegInf PosInf = NegInf"

text \<open>\<open>a < b\<close> on doubles; a comparison with NaN is false.\<close>

fun dless :: "double \<Rightarrow> double \<Rightarrow> bool" where
  "dless (Finite a) (Finite b) = (a < b)"
| "dless NaN _ = False"
| "dless _ NaN = False"
| "dless NegInf NegInf = False"
| "dless NegInf _ = True"
| "dless _ NegInf = False"
| "dless PosInf _ = False"
| "dless _ PosInf = True"

text \<open>The conversion of an \<open>int\<close> to \<open>double\<close>, exact for 32-bit values.\<close>

definition ofInt :: "int \<Rightarrow> double" where
  "ofInt i = Finite (real_of_int i)"

subsection \<open>Errors and collections\<close>

datatype error =
    NoAreaForId int          \<comment> \<open>\<open>error("No area for given id: ...")\<close> raised by \<open>getArea\<close>\<close>
  | SetFirstOfEmpty          \<comment> \<open>\<open>Set::first\<close> on an empty set\<close>
  | IndexOutOfRange int      \<comment> \<open>\<open>Vector::get\<close> or \<open>Vector::remove\<close> outside the vector\<close>
  | DivisionByZero           \<comment> \<open>integer division by zero\<close>

definition contains :: "'a list \<Rightarrow> 'a \<Rightarrow> bool" where
  "contains s x = (x \<in> set s)"

definition remove :: "'a list \<Rightarrow> 'a \<Rightarrow> 'a list" where
  "remove s x = removeAll x s"

definition add :: "('a::linorder) list \<Rightarrow> 'a \<Rightarrow> 'a list" where
  "add s x = (if x \<in> set s then s else insort x s)"

definition isEmpty :: "'a list \<Rightarrow> bool" where
  "isEmpty s = (s = [])"

definition first :: "'a list \<Rightarrow> error + 'a" where
  "first s = (case s of [] \<Rightarrow> Inl SetFirstOfEmpty | x # _ \<Rightarrow> Inr x)"

text \<open>\<open>s1 += s2\<close> adds every element of \<open>s2\<close>; \<open>s1 *= s2\<close> keeps the elements of \<open>s1\<close>
  that are in \<open>s2\<close>. (A comment of \<open>createGerrymanderedDistrict\<close> doubts that \<open>*=\<close>
  works; the model follows the contract of the collection class, and the selection loop
  of that function tests membership in \<open>ids\<close> once more, as the source does.)\<close>

definition unionWith :: "('a::linorder) list \<Rightarrow> 'a list \<Rightarrow> 'a list" where
  "unionWith s1 s2 = foldl add s1 s2"

definition intersect :: "'a list \<Rightarrow> 'a list \<Rightarrow> 'a list" where
  "intersect s1 s2 = filter (contains s2) s1"

definition vget :: "'a list \<Rightarrow> int \<Rightarrow> error + 'a" where
  "vget v i = (if 0 \<le> i \<and> i < int (length v) then Inr (v ! nat i) else Inl (IndexOutOfRange i))"

definition vremove :: "'a list \<Rightarrow> int \<Rightarrow> error + 'a list" where
  "vremove v i =
     (if 0 \<le> i \<and> i < int (length v) then Inr (take (nat i) v @ drop (Suc (nat i)) v)
      else Inl (IndexOutOfRange i))"

text \<open>Integer division of C++: the quotient is truncated towards zero.\<close>

definition cdiv :: "int \<Rightarrow> int \<Rightarrow> error + int" where
  "cdiv a b =
     (if b = 0 then Inl DivisionByZero else Inr (int32 (sgn a * sgn b * (\<bar>a\<bar> div \<bar>b\<bar>))))"

text \<open>
  The process-wide random source is an explicit argument: an infinite sequence of raw
  draws, of which each call consumes the first. \<open>randomInteger low high\<close> returns a
  value of the closed range; on an empty range (\<open>high < low\<close>) it returns \<open>low\<close>.
  \<open>randomBool\<close> returns a coin flip.
\<close>

type_synonym rng = "nat \<Rightarrow> nat"

definition randomInteger :: "rng \<Rightarrow> int \<Rightarrow> int \<Rightarrow> int \<times> rng" where
  "randomInteger g low high =
     ((if high < low then low else low + int (g 0 mod nat (high - low + 1))), (\<lambda>n. g (Suc n)))"

definition randomBool :: "rng \<Rightarrow> bool \<times> rng" where
  "randomBool g = (odd (g 0), (\<lambda>n. g (Suc n)))"

section \<open>votingmap.h, votingmap.cpp\<close>

record Demographic =
  dem :: int
  rep :: int
  pop :: int

record Area =
  id_A :: int
  dem_A :: int
  rep_A :: int
  pop_A :: int
  adjAreas :: "int list"

text \<open>
  The \<open>Map<int, Area*>\<close> is the association list of its entries; an \<open>Area\<close> is held by
  value, since no function of the program changes an area after it is registered.
  \<open>getArea\<close> raises an error for an id that is not registered, so the test for a null
  pointer in \<open>getDemographic\<close> never succeeds and the functions that look an area up
  pass the error on. The parameters of \<open>repWasted\<close> and \<open>demWasted\<close> are written
  \<open>d\<close> and \<open>r\<close>, the names \<open>dem\<close> and \<open>rep\<close> being the fields of \<open>Demographic\<close>;
  the two functions give the value of their expression, and every call of them reduces
  it to 32 bits.
\<close>

record VotingMap =
  graph :: "(int \<times> Area) list"
  numAreas :: int
  totalPopulation :: int

definition containsArea :: "VotingMap \<Rightarrow> int \<Rightarrow> bool" where
  "containsArea vm i = (map_of (graph vm) i \<noteq> None)"

definition addArea :: "VotingMap \<Rightarrow> Area \<Rightarrow> VotingMap" where
  "addArea vm loc =
     (if containsArea vm (id_A loc) then vm
      else vm\<lparr>graph := graph vm @ [(id_A loc, loc)],
              numAreas := int32 (numAreas vm + 1),
              totalPopulation := int32 (totalPopulation vm + pop_A loc)\<rparr>)"

definition totalPop :: "VotingMap \<Rightarrow> int" where
  "totalPop vm = totalPopulation vm"

definition precinctVector :: "VotingMap \<Rightarrow> int list" where
  "precinctVector vm = sort (remdups (map fst (graph vm)))"

definition precinctSet :: "VotingMap \<Rightarrow> int list" where
  "precinctSet vm = foldl add [] (precinctVector vm)"

definition getArea :: "VotingMap \<Rightarrow> int \<Rightarrow> error + Area" where
  "getArea vm i = (case map_of (graph vm) i of None \<Rightarrow> Inl (NoAreaForId i) | Some a \<Rightarrow> Inr a)"

definition getDemographic :: "VotingMap \<Rightarrow> int \<Rightarrow> error + Demographic" where
  "getDemographic vm i =
     (case getArea vm i of Inl e \<Rightarrow> Inl e
      | Inr cur \<Rightarrow> Inr \<lparr>dem = dem_A cur, rep = rep_A cur, pop = pop_A cur\<rparr>)"

definition getAdjacentPrecincts :: "VotingMap \<Rightarrow> int \<Rightarrow> error + int list" where
  "getAdjacentPrecincts vm i =
     (case getArea vm i of Inl e \<Rightarrow> Inl e | Inr loc \<Rightarrow> Inr (adjAreas loc))"

section \<open>gerrymander.cpp\<close>

text \<open>The literal \<open>0.2\<close> denotes the double nearest to \<open>2 / 10\<close>.\<close>

definition POPULATION_MARGIN :: double where
  "POPULATION_MARGIN = roundDouble (2 / 10)"

definition NONE :: int where
  "NONE = - 1"

definition repWasted :: "int \<Rightarrow> int \<Rightarrow> int" where
  "repWasted d r = (if d > r then r else r - d - 1)"

definition demWasted :: "int \<Rightarrow> int \<Rightarrow> int" where
  "demWasted d r = (if d > r then d - r - 1 else d)"

definition setToVector :: "int list \<Rightarrow> int list" where
  "setToVector intSet = foldl (\<lambda>vec element. vec @ [element]) [] intSet"

subsection \<open>Continuity\<close>

function isContinuousHelper :: "VotingMap \<Rightarrow> int list \<Rightarrow> int \<Rightarrow> error + int list"
  and isContinuousLoop :: "VotingMap \<Rightarrow> int list \<Rightarrow> int list \<Rightarrow> error + int list"
where
  "isContinuousHelper vm district start =
     (if \<not> contains district start then Inr district
      else (case getAdjacentPrecincts vm start of
              Inl e \<Rightarrow> Inl e
            | Inr nxt \<Rightarrow> isContinuousLoop vm (remove district start) nxt))"
| "isContinuousLoop vm district [] = Inr district"
| "isContinuousLoop vm district (i # nxt) =
     (case isContinuousHelper vm district i of
        Inl e \<Rightarrow> Inl e
      | Inr district' \<Rightarrow> isContinuousLoop vm district' nxt)"
  by pat_completeness auto

lemma isContinuous_shrinks:
  "isContinuousHelper_isContinuousLoop_dom (Inl (vm, district, start)) \<Longrightarrow>
     isContinuousHelper vm district start = Inr d' \<Longrightarrow> length d' \<le> length district"
  "isContinuousHelper_isContinuousLoop_dom (Inr (vm, district, nxt)) \<Longrightarrow>
     isContinuousLoop vm district nxt = Inr d' \<Longrightarrow> length d' \<le> length district"
proof (induction vm district start and vm district nxt arbitrary: d' and d'
       rule: isContinuousHelper_isContinuousLoop.pinduct)
  case (1 vm district start)
  show ?case
  proof (cases "contains district start")
    case False
    with 1 show ?thesis by (simp add: isContinuousHelper.psimps)
  next
    case True
    with 1(1,3) obtain nxt where n: "getAdjacentPrecincts vm start = Inr nxt"
      and r: "isContinuousLoop vm (remove district start) nxt = Inr d'"
      by (auto simp: isContinuousHelper.psimps split: sum.splits)
    from 1(2)[OF _ n r] True have "length d' \<le> length (remove district start)" by simp
    also have "\<dots> \<le> length district" by (simp add: remove_def)
    finally show ?thesis .
  qed
next
  case (2 vm district)
  then show ?case by (simp add: isContinuousLoop.psimps)
next
  case (3 vm district i nxt)
  from 3(1,4) obtain d1 where h: "isContinuousHelper vm district i = Inr d1"
    and r: "isContinuousLoop vm d1 nxt = Inr d'"
    by (auto simp: isContinuousLoop.psimps split: sum.splits)
  from 3(2)[OF h] have "length d1 \<le> length district" .
  moreover from 3(3)[OF h r] have "length d' \<le> length d1" .
  ultimately show ?case by simp
qed

termination isContinuousHelper
proof (relation "measures [\<lambda>x. case x of Inl (vm, d, s) \<Rightarrow> length d | Inr (vm, d, n) \<Rightarrow> length d,
                           \<lambda>x. case x of Inl (vm, d, s) \<Rightarrow> 0 | Inr (vm, d, n) \<Rightarrow> Suc (length n)]",
       goal_cases)
  case 1
  show ?case by simp
next
  case (2 vm district start x2)
  then have "length (removeAll start district) < length district"
    by (simp add: contains_def length_removeAll_less)
  then show ?case by (simp add: remove_def)
next
  case (3 vm district i nxt)
  show ?case by simp
next
  case (4 vm district i nxt x2)
  from isContinuous_shrinks(1)[OF 4(2) 4(1)] show ?case by auto
qed

definition isContinuous :: "VotingMap \<Rightarrow> int list \<Rightarrow> error + bool" where
  "isContinuous vm district =
     (case first district of
        Inl e \<Rightarrow> Inl e
      | Inr start \<Rightarrow> (case isContinuousHelper vm district start of
                       Inl e \<Rightarrow> Inl e
                     | Inr district' \<Rightarrow> Inr (isEmpty district')))"

subsection \<open>Validity of a plan\<close>

text \<open>The inner loop of \<open>isValidPlan\<close> over the precincts of one district.\<close>

fun isValidPlan_precincts ::
  "VotingMap \<Rightarrow> int list \<Rightarrow> int \<Rightarrow> int list \<Rightarrow> error + (int \<times> int list)" where
  "isValidPlan_precincts vm [] districtPop allIDs = Inr (districtPop, allIDs)"
| "isValidPlan_precincts vm (precinct # rest) districtPop allIDs =
     (case getDemographic vm precinct of
        Inl e \<Rightarrow> Inl e
      | Inr d \<Rightarrow>
          isValidPlan_precincts vm rest (int32 (districtPop + pop d)) (remove allIDs precinct))"

text \<open>
  The outer loop of \<open>isValidPlan\<close> over the districts, and its final test. In
  \<open>districtPop > mean * (1 + margin) || districtPop < mean * (1 - margin)\<close> the integers
  \<open>1\<close>, \<open>mean\<close> and \<open>districtPop\<close> are converted to \<open>double\<close>, and the sums and
  products are those of \<open>double\<close>.
\<close>

fun isValidPlan_districts ::
  "VotingMap \<Rightarrow> double \<Rightarrow> int \<Rightarrow> int list list \<Rightarrow> int list \<Rightarrow> error + bool" where
  "isValidPlan_districts vm margin mean [] allIDs = Inr (isEmpty allIDs)"
| "isValidPlan_districts vm margin mean (district # rest) allIDs =
     (case isContinuous vm district of
        Inl e \<Rightarrow> Inl e
      | Inr cont \<Rightarrow>
          if \<not> cont then Inr False
          else (case isValidPlan_precincts vm district 0 allIDs of
                  Inl e \<Rightarrow> Inl e
                | Inr (districtPop, allIDs') \<Rightarrow>
                    if dless (dmul (ofInt mean) (dadd (ofInt 1) margin)) (ofInt districtPop)
                       \<or> dless (ofInt districtPop) (dmul (ofInt mean) (dsub (ofInt 1) margin))
                    then Inr False
                    else isValidPlan_districts vm margin mean rest allIDs'))"

definition isValidPlan :: "VotingMap \<Rightarrow> int list list \<Rightarrow> double \<Rightarrow> error + bool" where
  "isValidPlan vm districts margin =
     (let allIDs = precinctSet vm in
      case cdiv (totalPop vm) (int (length districts)) of
        Inl e \<Rightarrow> Inl e
      | Inr mean \<Rightarrow> isValidPlan_districts vm margin mean districts allIDs)"

subsection \<open>The efficiency gap\<close>

fun howGerrymandered_precincts ::
  "VotingMap \<Rightarrow> int list \<Rightarrow> Demographic \<Rightarrow> error + Demographic" where
  "howGerrymandered_precincts vm [] districtInfo = Inr districtInfo"
| "howGerrymandered_precincts vm (precinct # rest) districtInfo =
     (case getDemographic vm precinct of
        Inl e \<Rightarrow> Inl e
      | Inr loc \<Rightarrow>
          howGerrymandered_precincts vm rest
            (districtInfo\<lparr>dem := int32 (dem districtInfo + dem loc),
                           rep := int32 (rep districtInfo + rep loc)\<rparr>))"

fun howGerrymandered_districts ::
  "VotingMap \<Rightarrow> int list list \<Rightarrow> int \<Rightarrow> int \<Rightarrow> int \<Rightarrow> error + (int \<times> int \<times> int)" where
  "howGerrymandered_districts vm [] demWaste repWaste totalVotes =
     Inr (demWaste, repWaste, totalVotes)"
| "howGerrymandered_districts vm (district # rest) demWaste repWaste totalVotes =
     (case howGerrymandered_precincts vm district \<lparr>dem = 0, rep = 0, pop = 0\<rparr> of
        Inl e \<Rightarrow> Inl e
      | Inr districtInfo \<Rightarrow>
          howGerrymandered_districts vm rest
            (int32 (demWaste + int32 (demWasted (dem districtInfo) (rep districtInfo))))
            (int32 (repWaste + int32 (repWasted (dem districtInfo) (rep districtInfo))))
            (int32 (totalVotes + int32 (dem districtInfo + rep districtInfo))))"

definition howGerrymandered :: "VotingMap \<Rightarrow> int list list \<Rightarrow> error + int" where
  "howGerrymandered vm districts =
     (case isValidPlan vm districts POPULATION_MARGIN of
        Inl e \<Rightarrow> Inl e
      | Inr valid \<Rightarrow>
          if \<not> valid then Inr NONE
          else (case howGerrymandered_districts vm districts 0 0 0 of
                  Inl e \<Rightarrow> Inl e
                | Inr (demWaste, repWaste, totalVotes) \<Rightarrow>
                    cdiv (int32 (100 * int32 \<bar>int32 (demWaste - repWaste)\<bar>)) totalVotes))"

definition isGerrymandered :: "VotingMap \<Rightarrow> int list list \<Rightarrow> int \<Rightarrow> error + bool" where
  "isGerrymandered vm districts margin =
     (case howGerrymandered vm districts of
        Inl e \<Rightarrow> Inl e
      | Inr score \<Rightarrow> Inr (score > margin))"

subsection \<open>The biased builder\<close>

text \<open>
  The selection loop of \<open>createGerrymanderedDistrict\<close> over the frontier \<open>adj\<close>, with
  the loop variables \<open>maxWaste\<close> and \<open>maxID\<close>. \<open>randomBool\<close> is drawn only on a tie
  (the \<open>&&\<close> of the source evaluates its right operand only then).
\<close>

fun createGerrymanderedDistrict_select ::
  "VotingMap \<Rightarrow> Demographic \<Rightarrow> bool \<Rightarrow> int list \<Rightarrow> int list \<Rightarrow> int \<Rightarrow> int \<Rightarrow> rng
     \<Rightarrow> error + (int \<times> int \<times> rng)" where
  "createGerrymanderedDistrict_select vm demo favorRep ids [] maxWaste maxID g =
     Inr (maxWaste, maxID, g)"
| "createGerrymanderedDistrict_select vm demo favorRep ids (i # rest) maxWaste maxID g =
     (if contains ids i then
        (case getDemographic vm i of
           Inl e \<Rightarrow> Inl e
         | Inr tempDemo \<Rightarrow>
             (let totalDem = int32 (dem demo + dem tempDemo);
                  totalRep = int32 (rep demo + rep tempDemo);
                  candidateWaste =
                    (if favorRep
                     then int32 (int32 (demWasted totalDem totalRep)
                                 - int32 (repWasted totalDem totalRep))
                     else int32 (int32 (repWasted totalDem totalRep)
                                 - int32 (demWasted totalDem totalRep)))
              in if candidateWaste > maxWaste then
                   createGerrymanderedDistrict_select vm demo favorRep ids rest candidateWaste i g
                 else if candidateWaste = maxWaste then
                   (case randomBool g of
                      (coin, g') \<Rightarrow>
                        if coin then
                          createGerrymanderedDistrict_select vm demo favorRep ids rest maxWaste i g'
                        else
                          createGerrymanderedDistrict_select vm demo favorRep ids rest maxWaste maxID g')
                 else
                   createGerrymanderedDistrict_select vm demo favorRep ids rest maxWaste maxID g))
      else createGerrymanderedDistrict_select vm demo favorRep ids rest maxWaste maxID g)"

lemma createGerrymanderedDistrict_select_member:
  "createGerrymanderedDistrict_select vm demo favorRep ids adj maxWaste maxID g = Inr (w, m, g')
     \<Longrightarrow> m = maxID \<or> (m \<in> set adj \<and> m \<in> set ids)"
proof (induction adj arbitrary: maxWaste maxID g)
  case Nil
  then show ?case by simp
next
  case (Cons i rest)
  show ?case
  proof (cases "contains ids i")
    case False
    with Cons.prems have
      "createGerrymanderedDistrict_select vm demo favorRep ids rest maxWaste maxID g = Inr (w, m, g')"
      by simp
    from Cons.IH[OF this] show ?thesis by auto
  next
    case True
    then have i: "i \<in> set ids" by (simp add: contains_def)
    from Cons.prems True obtain mw mi g1 where
      r: "createGerrymanderedDistrict_select vm demo favorRep ids rest mw mi g1 = Inr (w, m, g')"
      and mi: "mi = maxID \<or> mi = i"
      by (auto simp: Let_def split: sum.splits if_splits prod.splits)
    from Cons.IH[OF r] mi i show ?thesis by auto
  qed
qed

text \<open>
  The references \<open>district\<close>, \<open>demo\<close>, \<open>adj\<close> and \<open>ids\<close> of the source are passed in
  and returned, together with the random source.
\<close>

function createGerrymanderedDistrict ::
  "VotingMap \<Rightarrow> int list \<Rightarrow> Demographic \<Rightarrow> int \<Rightarrow> int \<Rightarrow> bool \<Rightarrow> int list \<Rightarrow> int list \<Rightarrow> rng
     \<Rightarrow> error + (int list \<times> Demographic \<times> int list \<times> int list \<times> rng)" where
  "createGerrymanderedDistrict vm district demo curID maxPop favorRep adj ids g =
     (if pop demo > maxPop then Inr (district, demo, adj, ids, g)
      else
        (case getDemographic vm curID of
           Inl e \<Rightarrow> Inl e
         | Inr curDemo \<Rightarrow>
             (case getAdjacentPrecincts vm curID of
                Inl e \<Rightarrow> Inl e
              | Inr adjSet \<Rightarrow>
                  (let district' = add district curID;
                       demo' = \<lparr>dem = int32 (dem demo + dem curDemo),
                                rep = int32 (rep demo + rep curDemo),
                                pop = int32 (pop demo + pop curDemo)\<rparr>;
                       ids' = remove ids curID;
                       adj' = intersect (unionWith adj adjSet) ids'
                   in if isEmpty adj' then Inr (district', demo', adj', ids', g)
                      else
                        (case first adj' of
                           Inl e \<Rightarrow> Inl e
                         | Inr firstID \<Rightarrow>
                             (case createGerrymanderedDistrict_select vm demo' favorRep ids' adj'
                                     (if favorRep
                                      then int32 (int32 (demWasted (dem demo') (rep demo'))
                                                  - int32 (repWasted (dem demo') (rep demo')))
                                      else int32 (int32 (repWasted (dem demo') (rep demo'))
                                                  - int32 (demWasted (dem demo') (rep demo'))))
                                     firstID g of
                                Inl e \<Rightarrow> Inl e
                              | Inr (maxWaste, maxID, g') \<Rightarrow>
                                  createGerrymanderedDistrict vm district' demo' maxID maxPop favorRep
                                    adj' ids' g'))))))"
  by pat_completeness auto

termination createGerrymanderedDistrict
proof (relation "measure (\<lambda>(vm, district, demo, curID, maxPop, favorRep, adj, ids, g).
                            length (remove ids curID))", goal_cases)
  case 1
  show ?case by simp
next
  case (2 vm district demo curID maxPop favorRep adj ids g curDemo adjSet district' demo' ids'
          adj' firstID sel maxWaste rest maxID g')
  from 2(9) have "firstID \<in> set adj'" by (auto simp: first_def split: list.splits)
  moreover from 2(10,11,12) have "maxID = firstID \<or> maxID \<in> set adj'"
    using createGerrymanderedDistrict_select_member by blast
  moreover have "set adj' \<subseteq> set ids'" using 2(7) by (auto simp: intersect_def contains_def)
  ultimately have "maxID \<in> set ids'" by auto
  then have "length (removeAll maxID ids') < length ids'" by (rule length_removeAll_less)
  with 2(6) show ?case by (simp add: remove_def)
qed

declare createGerrymanderedDistrict.simps [simp del]


lemma vremove_length: "vremove v i = Inr v' \<Longrightarrow> length v' < length v"
  by (auto simp: vremove_def split: if_splits)




subsection \<open>The random builder\<close>

text \<open>
  \<open>createRandomDistrict\<close> and its loop over the vector \<open>adj\<close> of the neighbours of the
  current precinct. The references \<open>district\<close>, \<open>districtPop\<close> and \<open>ids\<close> are passed in
  and returned, together with the random source.
\<close>

function createRandomDistrict ::
  "VotingMap \<Rightarrow> int list \<Rightarrow> int \<Rightarrow> int \<Rightarrow> int \<Rightarrow> int list \<Rightarrow> rng
     \<Rightarrow> error + (int list \<times> int \<times> int list \<times> rng)"
  and createRandomDistrict_loop ::
  "VotingMap \<Rightarrow> int list \<Rightarrow> int \<Rightarrow> int \<Rightarrow> int list \<Rightarrow> int list \<Rightarrow> rng
     \<Rightarrow> error + (int list \<times> int \<times> int list \<times> rng)"
where
  "createRandomDistrict vm district curID districtPop maxPop ids g =
     (if districtPop \<ge> maxPop then Inr (district, districtPop, ids, g)
      else
        (case getDemographic vm curID of
           Inl e \<Rightarrow> Inl e
         | Inr curDemo \<Rightarrow>
             (case getAdjacentPrecincts vm curID of
                Inl e \<Rightarrow> Inl e
              | Inr adjSet \<Rightarrow>
                  createRandomDistrict_loop vm (add district curID)
                    (int32 (districtPop + pop curDemo)) maxPop (remove ids curID)
                    (setToVector adjSet) g)))"
| "createRandomDistrict_loop vm district districtPop maxPop ids adj g =
     (if isEmpty adj then Inr (district, districtPop, ids, g)
      else
        (case randomInteger g 0 (int (length adj) - 1) of
           (index, g1) \<Rightarrow>
             (case vget adj index of
                Inl e \<Rightarrow> Inl e
              | Inr neighbour \<Rightarrow>
                  if contains ids neighbour then
                    (case createRandomDistrict vm district neighbour districtPop maxPop ids g1 of
                       Inl e \<Rightarrow> Inl e
                     | Inr (district', districtPop', ids', g2) \<Rightarrow>
                         (case vremove adj index of
                            Inl e \<Rightarrow> Inl e
                          | Inr adj' \<Rightarrow>
                              createRandomDistrict_loop vm district' districtPop' maxPop ids' adj' g2))
                  else
                    (case vremove adj index of
                       Inl e \<Rightarrow> Inl e
                     | Inr adj' \<Rightarrow>
                         createRandomDistrict_loop vm district districtPop maxPop ids adj' g1))))"
  by pat_completeness auto

lemma createRandomDistrict_shrinks:
  "createRandomDistrict_createRandomDistrict_loop_dom
       (Inl (vm, district, curID, districtPop, maxPop, ids, g)) \<Longrightarrow>
     createRandomDistrict vm district curID districtPop maxPop ids g = Inr (d', p', ids', g') \<Longrightarrow>
     length ids' \<le> length ids"
  "createRandomDistrict_createRandomDistrict_loop_dom
       (Inr (vm, district, districtPop, maxPop, ids, adj, g)) \<Longrightarrow>
     createRandomDistrict_loop vm district districtPop maxPop ids adj g = Inr (d', p', ids', g') \<Longrightarrow>
     length ids' \<le> length ids"
proof (induction vm district curID districtPop maxPop ids g
         and vm district districtPop maxPop ids adj g
       arbitrary: d' p' ids' g' and d' p' ids' g'
       rule: createRandomDistrict_createRandomDistrict_loop.pinduct)
  case (1 vm district curID districtPop maxPop ids g)
  show ?case
  proof (cases "districtPop \<ge> maxPop")
    case True
    with "1.hyps" "1.prems" show ?thesis by (simp add: createRandomDistrict.psimps)
  next
    case False
    with "1.hyps" "1.prems" obtain curDemo adjSet where
      c: "getDemographic vm curID = Inr curDemo" and a: "getAdjacentPrecincts vm curID = Inr adjSet"
      and r: "createRandomDistrict_loop vm (add district curID) (int32 (districtPop + pop curDemo))
                maxPop (remove ids curID) (setToVector adjSet) g = Inr (d', p', ids', g')"
      by (auto simp: createRandomDistrict.psimps split: sum.splits)
    from "1.IH"[OF False c a r] have "length ids' \<le> length (remove ids curID)" .
    also have "\<dots> \<le> length ids" by (simp add: remove_def)
    finally show ?thesis .
  qed
next
  case (2 vm district districtPop maxPop ids adj g)
  note dom = "2.hyps" and eq = "2.prems"
  show ?case
  proof (cases "isEmpty adj")
    case True
    with dom eq show ?thesis by (simp add: createRandomDistrict_loop.psimps)
  next
    case False
    obtain index g1 where ri: "randomInteger g 0 (int (length adj) - 1) = (index, g1)"
      by (cases "randomInteger g 0 (int (length adj) - 1)")
    from dom eq False ri obtain neighbour adj' where
      n: "vget adj index = Inr neighbour" and v: "vremove adj index = Inr adj'"
      by (auto simp: createRandomDistrict_loop.psimps split: sum.splits if_splits)
    show ?thesis
    proof (cases "contains ids neighbour")
      case True
      with dom eq False ri n v obtain d1 p1 ids1 g2 where
        h: "createRandomDistrict vm district neighbour districtPop maxPop ids g1 = Inr (d1, p1, ids1, g2)"
        and r: "createRandomDistrict_loop vm d1 p1 maxPop ids1 adj' g2 = Inr (d', p', ids', g')"
        by (auto simp: createRandomDistrict_loop.psimps split: sum.splits)
      from "2.IH"(1)[OF False ri[symmetric] n True h] have "length ids1 \<le> length ids" .
      moreover from "2.IH"(2)[OF False ri[symmetric] n True h refl refl refl v r]
      have "length ids' \<le> length ids1" .
      ultimately show ?thesis by simp
    next
      case nc: False
      with dom eq False ri n v have
        r: "createRandomDistrict_loop vm district districtPop maxPop ids adj' g1 = Inr (d', p', ids', g')"
        by (auto simp: createRandomDistrict_loop.psimps split: sum.splits)
      from "2.IH"(3)[OF False ri[symmetric] n nc v r] show ?thesis .
    qed
  qed
qed

termination createRandomDistrict
proof (relation "measures
         [\<lambda>x. case x of
                 Inl (vm, district, curID, districtPop, maxPop, ids, g) \<Rightarrow>
                   Suc (length (remove ids curID))
               | Inr (vm, district, districtPop, maxPop, ids, adj, g) \<Rightarrow> length ids,
          \<lambda>x. case x of
                 Inl (vm, district, curID, districtPop, maxPop, ids, g) \<Rightarrow> 0
               | Inr (vm, district, districtPop, maxPop, ids, adj, g) \<Rightarrow> Suc (length adj)]",
       goal_cases)
  case 1
  show ?case by simp
next
  case 2
  show ?case by simp
next
  case (3 vm district districtPop maxPop ids adj g index g1 neighbour)
  from 3(4) have "length (removeAll neighbour ids) < length ids"
    by (auto simp: contains_def intro: length_removeAll_less)
  then show ?case by (auto simp: remove_def)
next
  case (4 vm district districtPop maxPop ids adj g index g1 neighbour r d1 r1 p1 r2 ids1 g2 adj')
  from 4(6,7,8) have "r = (d1, p1, ids1, g2)" by simp
  with createRandomDistrict_shrinks(1)[OF 4(10)] 4(5)
  have "length ids1 \<le> length ids" by simp
  moreover from 4(9) have "length adj' < length adj" by (rule vremove_length)
  ultimately show ?case by auto
next
  case (5 vm district districtPop maxPop ids adj g index g1 neighbour adj')
  from 5(5) have "length adj' < length adj" by (rule vremove_length)
  then show ?case by simp
qed

declare createRandomDistrict.simps [simp del] createRandomDistrict_loop.simps [simp del]

text \<open>The loop of \<open>createRandomPlanHelper\<close>.\<close>

function createRandomPlanHelper_loop ::
  "VotingMap \<Rightarrow> int \<Rightarrow> int list list \<Rightarrow> int list \<Rightarrow> int list \<Rightarrow> rng
     \<Rightarrow> error + (int list list \<times> int list \<times> rng)" where
  "createRandomPlanHelper_loop vm maxPop districts ids all g =
     (if isEmpty ids then Inr (districts, ids, g)
      else
        (case randomInteger g 0 (int (length all) - 1) of
           (index, g1) \<Rightarrow>
             (case vget all index of
                Inl e \<Rightarrow> Inl e
              | Inr seed \<Rightarrow>
                  if contains ids seed then
                    (case createRandomDistrict vm [] seed 0 maxPop ids g1 of
                       Inl e \<Rightarrow> Inl e
                     | Inr (curDistrict, districtPop, ids', g2) \<Rightarrow>
                         (case vremove all index of
                            Inl e \<Rightarrow> Inl e
                          | Inr all' \<Rightarrow>
                              createRandomPlanHelper_loop vm maxPop (add districts curDistrict)
                                ids' all' g2))
                  else
                    (case vremove all index of
                       Inl e \<Rightarrow> Inl e
                     | Inr all' \<Rightarrow>
                         createRandomPlanHelper_loop vm maxPop districts ids all' g1))))"
  by pat_completeness auto

termination createRandomPlanHelper_loop
  by (relation "measure (\<lambda>(vm, maxPop, districts, ids, all, g). length all)")
     (auto dest: vremove_length)

declare createRandomPlanHelper_loop.simps [simp del]

definition createRandomPlanHelper ::
  "VotingMap \<Rightarrow> int list list \<Rightarrow> int \<Rightarrow> int list \<Rightarrow> rng
     \<Rightarrow> error + (int list list \<times> int list \<times> rng)" where
  "createRandomPlanHelper vm districts totalDistricts ids g =
     (case cdiv (totalPop vm) totalDistricts of
        Inl e \<Rightarrow> Inl e
      | Inr maxPop \<Rightarrow> createRandomPlanHelper_loop vm maxPop districts ids (setToVector ids) g)"

section \<open>Data sets of the program's tests\<close>

text \<open>A registry without areas, with both counters at zero.\<close>

definition emptyMap :: VotingMap where
  "emptyMap = \<lparr>graph = [], numAreas = 0, totalPopulation = 0\<rparr>"

text \<open>The constructor of \<open>Area\<close>; the adjacent ids are collected into a set.\<close>

definition mkArea :: "int \<Rightarrow> int \<Rightarrow> int \<Rightarrow> int \<Rightarrow> int list \<Rightarrow> Area" where
  "mkArea idNum democrat republican population adjacentAreas =
     \<lparr>id_A = idNum, dem_A = democrat, rep_A = republican, pop_A = population,
      adjAreas = foldl add [] adjacentAreas\<rparr>"

text \<open>The seven custom precincts of the test "Custom Precincts for verification".\<close>

definition customPrecincts :: VotingMap where
  "customPrecincts = foldl addArea emptyMap
     [mkArea 50001 121 162 636 [50002, 50007],
      mkArea 50002 1011 351 2837 [50001, 50003, 50004],
      mkArea 50003 234 1141 2527 [50002, 50005],
      mkArea 50004 366 452 1223 [50002, 50005],
      mkArea 50005 468 611 2168 [50002, 50004, 50003, 50006],
      mkArea 50006 51 275 619 [50002, 50005, 50007],
      mkArea 50007 121 909 2918 [50001, 50006]]"

definition badPlan :: "int list list" where
  "badPlan = [[50001, 50005]]"


text \<open>The grid of 10 rows of 5 precincts of the tests (\<open>defaultMapJerry\<close>), and the plan
  of the test "Using cracked districts to test validation": five blocks of ten
  consecutive ids.\<close>

definition adjacentWithinDefaultJerry :: "int \<Rightarrow> int list" where
  "adjacentWithinDefaultJerry i =
     (let adj = [];
          adj = (if i > 4 then add adj (i - 5) else adj);
          adj = (if i mod 5 > 0 then add adj (i - 1) else adj);
          adj = (if i mod 5 < 4 then add adj (i + 1) else adj);
          adj = (if i < 45 then add adj (i + 5) else adj)
      in adj)"

definition defaultMapJerry :: "Area list" where
  "defaultMapJerry =
     map (\<lambda>i. if i mod 5 < 2
               then \<lparr>id_A = i, dem_A = 1, rep_A = 0, pop_A = 1,
                     adjAreas = adjacentWithinDefaultJerry i\<rparr>
               else \<lparr>id_A = i, dem_A = 0, rep_A = 1, pop_A = 1,
                     adjAreas = adjacentWithinDefaultJerry i\<rparr>)
         [0..49]"

definition defaultMap :: VotingMap where
  "defaultMap = foldl addArea emptyMap defaultMapJerry"

definition crackedPlan :: "int list list" where
  "crackedPlan = map (\<lambda>i. map (\<lambda>j. i * 10 + j) [0..9]) [0..4]"

section \<open>Further data sets\<close>

text \<open>Three precincts in a row; the middle one is small.\<close>

definition rowMap :: VotingMap where
  "rowMap = foldl addArea emptyMap
     [mkArea 1 4 2 10 [2],
      mkArea 2 1 0 1 [1, 3],
      mkArea 3 2 5 10 [2]]"

definition overlappingPlan :: "int list list" where
  "overlappingPlan = [[1, 2], [2, 3]]"

text \<open>Two adjacent precincts with an odd total population.\<close>

definition oddTotalMap :: VotingMap where
  "oddTotalMap = foldl addArea emptyMap
     [mkArea 1 3 2 5 [2],
      mkArea 2 2 4 6 [1]]"

definition singletonsPlan :: "int list list" where
  "singletonsPlan = [[1], [2]]"

text \<open>Two isolated precincts of populations 63 and 27.\<close>

definition boundaryMap :: VotingMap where
  "boundaryMap = foldl addArea emptyMap
     [mkArea 1 1 0 63 [],
      mkArea 2 0 1 27 []]"

text \<open>Three precincts in a row whose populations add up to \<open>- 7\<close>.\<close>

definition debtMap :: VotingMap where
  "debtMap = foldl addArea emptyMap
     [mkArea 1 1 0 (- 4) [2],
      mkArea 2 0 1 1 [1, 3],
      mkArea 3 1 0 (- 4) [2]]"

text \<open>One precinct with thirty million Democratic votes.\<close>

definition crowdedMap :: VotingMap where
  "crowdedMap = foldl addArea emptyMap [mkArea 1 30000000 0 1 []]"

text \<open>Three isolated precincts of population 1; only the first has a voter.\<close>

definition quietMap :: VotingMap where
  "quietMap = foldl addArea emptyMap
     [mkArea 1 1 0 1 [],
      mkArea 2 0 0 1 [],
      mkArea 3 0 0 1 []]"

definition quietPlan :: "int list list" where
  "quietPlan = [[1], [2], [3]]"

definition wholePlan :: "int list list" where
  "wholePlan = [[50001, 50002, 50003, 50004, 50005, 50006, 50007]]"

text \<open>A single precinct.\<close>

definition loneMap :: VotingMap where
  "loneMap = foldl addArea emptyMap [mkArea 1 1 0 1 []]"

text \<open>A precinct with two neighbours; the random source that always draws 0.\<close>

definition starMap :: VotingMap where
  "starMap = foldl addArea emptyMap
     [mkArea 1 5 0 1 [2, 3],
      mkArea 2 0 3 1 [1],
      mkArea 3 0 1 1 [1]]"

definition zeroes :: rng where
  "zeroes = (\<lambda>n. 0)"

section \<open>Notions of the specification\<close>

text \<open>
  The registered precinct ids, the adjacency edges of the registry, and reachability
  from a start member along adjacency edges that stay inside a set of ids \<open>D\<close> (the
  members of one district).
\<close>

definition registered :: "VotingMap \<Rightarrow> int set" where
  "registered vm = set (precinctSet vm)"

definition adjacent :: "VotingMap \<Rightarrow> int \<Rightarrow> int \<Rightarrow> bool" where
  "adjacent vm a b = (case getAdjacentPrecincts vm a of Inl e \<Rightarrow> False | Inr nxt \<Rightarrow> contains nxt b)"

inductive reachable :: "VotingMap \<Rightarrow> int set \<Rightarrow> int \<Rightarrow> int \<Rightarrow> bool" for vm D s where
  start: "s \<in> D \<Longrightarrow> reachable vm D s s"
| step: "reachable vm D s a \<Longrightarrow> adjacent vm a b \<Longrightarrow> b \<in> D \<Longrightarrow> reachable vm D s b"

text \<open>The population test of \<open>isValidPlan\<close> on a mean, a margin and a population.\<close>

definition outsideMargin :: "int \<Rightarrow> double \<Rightarrow> int \<Rightarrow> bool" where
  "outsideMargin mean margin districtPop =
     (dless (dmul (ofInt mean) (dadd (ofInt 1) margin)) (ofInt districtPop)
      \<or> dless (ofInt districtPop) (dmul (ofInt mean) (dsub (ofInt 1) margin)))"

text \<open>The population and the vote totals of a district, precinct by precinct.\<close>

definition populationOf :: "VotingMap \<Rightarrow> int \<Rightarrow> int" where
  "populationOf vm i = (case getDemographic vm i of Inl e \<Rightarrow> 0 | Inr d \<Rightarrow> pop d)"

definition demOf :: "VotingMap \<Rightarrow> int \<Rightarrow> int" where
  "demOf vm i = (case getDemographic vm i of Inl e \<Rightarrow> 0 | Inr d \<Rightarrow> dem d)"

definition repOf :: "VotingMap \<Rightarrow> int \<Rightarrow> int" where
  "repOf vm i = (case getDemographic vm i of Inl e \<Rightarrow> 0 | Inr d \<Rightarrow> rep d)"

definition districtPopulation :: "VotingMap \<Rightarrow> int list \<Rightarrow> int" where
  "districtPopulation vm district = sum_list (map (populationOf vm) district)"

definition districtDem :: "VotingMap \<Rightarrow> int list \<Rightarrow> int" where
  "districtDem vm district = sum_list (map (demOf vm) district)"

definition districtRep :: "VotingMap \<Rightarrow> int list \<Rightarrow> int" where
  "districtRep vm district = sum_list (map (repOf vm) district)"

text \<open>The sums of the score: wasted votes of either party and all votes of a plan.\<close>

definition sumDemWasted :: "VotingMap \<Rightarrow> int list list \<Rightarrow> int" where
  "sumDemWasted vm districts =
     sum_list (map (\<lambda>d. demWasted (districtDem vm d) (districtRep vm d)) districts)"

definition sumRepWasted :: "VotingMap \<Rightarrow> int list list \<Rightarrow> int" where
  "sumRepWasted vm districts =
     sum_list (map (\<lambda>d. repWasted (districtDem vm d) (districtRep vm d)) districts)"

definition totalVotesOf :: "VotingMap \<Rightarrow> int list list \<Rightarrow> int" where
  "totalVotesOf vm districts =
     sum_list (map (\<lambda>d. districtDem vm d + districtRep vm d) districts)"

text \<open>The score of the specification:
  \<open>floor(100 * |\<Sigma>demWasted - \<Sigma>repWasted| / totalVotes)\<close>.\<close>

definition efficiencyGapPercent :: "VotingMap \<Rightarrow> int list list \<Rightarrow> int" where
  "efficiencyGapPercent vm districts =
     \<lfloor>100 * \<bar>real_of_int (sumDemWasted vm districts) - real_of_int (sumRepWasted vm districts)\<bar>
        / real_of_int (totalVotesOf vm districts)\<rfloor>"

text \<open>No precinct id in two different districts of a plan.\<close>

definition pairwiseDisjoint :: "int list list \<Rightarrow> bool" where
  "pairwiseDisjoint districts =
     (\<forall>d1 \<in> set districts. \<forall>d2 \<in> set districts. d1 \<noteq> d2 \<longrightarrow> set d1 \<inter> set d2 = {})"

section \<open>Properties\<close>

subsection \<open>The expectations of the program's tests\<close>

text \<open>The model agrees with the two tests of the program that involve no random choice.\<close>

lemma test_cracked_districts:
  "isGerrymandered defaultMap crackedPlan 7 = Inr True \<and>
   isValidPlan defaultMap crackedPlan (roundDouble (1 / 10)) = Inr True"
  by code_simp

lemma test_custom_precincts:
  "isValidPlan customPrecincts badPlan POPULATION_MARGIN = Inr False \<and>
   howGerrymandered customPrecincts badPlan = Inr NONE"
  by code_simp

subsection \<open>Sets, the registry and reachability\<close>

lemma int32_idem: "int32 (int32 x) = int32 x"
  by (simp add: int32_def)

lemma int32_add_left: "int32 (int32 a + b) = int32 (a + b)"
proof -
  have "((a + 2 ^ 31) mod 2 ^ 32 + b) mod 2 ^ 32 = (a + 2 ^ 31 + b) mod (2 ^ 32 :: int)"
    by (rule mod_add_left_eq)
  then show ?thesis by (simp add: int32_def algebra_simps)
qed

lemma int32_add_right: "int32 (a + int32 b) = int32 (a + b)"
  using int32_add_left[of b a] by (simp add: add.commute)

lemma int32_diff: "int32 (int32 a - int32 b) = int32 (a - b)"
proof -
  have "(a + 2 ^ 31) mod 2 ^ 32 - (b + 2 ^ 31) mod 2 ^ 32 + 2 ^ 31
          = ((a + 2 ^ 31) mod 2 ^ 32 + 2 ^ 31) - (b + 2 ^ 31) mod (2 ^ 32 :: int)"
    by simp
  have "((a + 2 ^ 31) mod 2 ^ 32 - (b + 2 ^ 31) mod 2 ^ 32) mod 2 ^ 32
          = ((a + 2 ^ 31) - (b + 2 ^ 31)) mod (2 ^ 32 :: int)"
    by (rule mod_diff_eq)
  then have "((a + 2 ^ 31) mod 2 ^ 32 - (b + 2 ^ 31) mod 2 ^ 32 + 2 ^ 31) mod 2 ^ 32
          = (a - b + 2 ^ 31) mod (2 ^ 32 :: int)"
    by (metis (no_types, opaque_lifting) add_diff_cancel_right diff_add_eq mod_add_left_eq)
  then show ?thesis by (simp add: int32_def algebra_simps)
qed

lemma int32_inIntRange: "inIntRange x \<Longrightarrow> int32 x = x"
  by (simp add: int32_def inIntRange_def)

lemma inIntRange_int32: "inIntRange (int32 x)"
proof -
  have "0 \<le> (x + 2 ^ 31) mod (2 ^ 32 :: int)" "(x + 2 ^ 31) mod (2 ^ 32 :: int) < 2 ^ 32"
    by simp_all
  then show ?thesis by (simp add: int32_def inIntRange_def)
qed

lemma set_add: "set (add s x) = insert x (set s)"
  by (auto simp: add_def set_insort_key)

lemma set_foldl_add: "set (foldl add s xs) = set s \<union> set xs"
  by (induction xs arbitrary: s) (auto simp: set_add)

lemma registered_iff: "i \<in> registered vm \<longleftrightarrow> containsArea vm i"
  by (auto simp: precinctSet_def precinctVector_def set_foldl_add registered_def containsArea_def
      map_of_eq_None_iff)

lemma getArea_registered: "i \<in> registered vm \<Longrightarrow> \<exists>a. getArea vm i = Inr a"
  by (auto simp: registered_iff containsArea_def getArea_def)

lemma getArea_Inr_registered: "getArea vm i = Inr a \<Longrightarrow> i \<in> registered vm"
  by (auto simp: registered_iff containsArea_def getArea_def split: option.splits)

lemma getAdjacentPrecincts_registered:
  "i \<in> registered vm \<Longrightarrow> \<exists>nxt. getAdjacentPrecincts vm i = Inr nxt"
  using getArea_registered[of i vm] by (auto simp: getAdjacentPrecincts_def)

lemma getAdjacentPrecincts_Inr_registered:
  "getAdjacentPrecincts vm i = Inr nxt \<Longrightarrow> i \<in> registered vm"
  by (auto simp: getAdjacentPrecincts_def split: sum.splits dest: getArea_Inr_registered)

lemma getDemographic_registered:
  "i \<in> registered vm \<Longrightarrow> \<exists>d. getDemographic vm i = Inr d"
  using getArea_registered[of i vm] by (auto simp: getDemographic_def)

lemma getDemographic_Inr_registered:
  "getDemographic vm i = Inr d \<Longrightarrow> i \<in> registered vm"
  by (auto simp: getDemographic_def split: sum.splits dest: getArea_Inr_registered)

lemma set_remove: "set (remove s x) = set s - {x}"
  by (simp add: remove_def)

lemma reachable_in: "reachable vm D s b \<Longrightarrow> b \<in> D"
  by (induction rule: reachable.induct) auto

lemma reachable_start_in: "reachable vm D s b \<Longrightarrow> s \<in> D"
  by (induction rule: reachable.induct) auto

lemma reachable_mono: "reachable vm D' s b \<Longrightarrow> D' \<subseteq> D \<Longrightarrow> reachable vm D s b"
  by (induction rule: reachable.induct) (auto intro: reachable.intros)

lemma reachable_trans: "reachable vm D a b \<Longrightarrow> reachable vm D s a \<Longrightarrow> reachable vm D s b"
  by (induction rule: reachable.induct) (auto intro: reachable.intros)

lemma reachable_first_step:
  "reachable vm D s b \<Longrightarrow> b = s \<or> (\<exists>i. adjacent vm s i \<and> reachable vm (D - {s}) i b)"
proof (induction rule: reachable.induct)
  case start
  then show ?case by simp
next
  case (step a b)
  show ?case
  proof (cases "b = s")
    case True then show ?thesis by simp
  next
    case False
    show ?thesis
    proof (cases "a = s")
      case True
      with step False have "adjacent vm s b" "reachable vm (D - {s}) b b"
        by (auto intro: reachable.start)
      then show ?thesis by blast
    next
      case a: False
      with step obtain i where i: "adjacent vm s i" "reachable vm (D - {s}) i a" by blast
      from i(2) step(2,3) False have "reachable vm (D - {s}) i b"
        by (auto intro: reachable.step)
      with i(1) show ?thesis by blast
    qed
  qed
qed

lemma reachable_unfold:
  assumes "s \<in> D"
  shows "reachable vm D s b \<longleftrightarrow> b = s \<or> (\<exists>i. adjacent vm s i \<and> reachable vm (D - {s}) i b)"
proof
  assume "reachable vm D s b" then show "b = s \<or> (\<exists>i. adjacent vm s i \<and> reachable vm (D - {s}) i b)"
    by (rule reachable_first_step)
next
  assume r: "b = s \<or> (\<exists>i. adjacent vm s i \<and> reachable vm (D - {s}) i b)"
  show "reachable vm D s b"
  proof (cases "b = s")
    case True with assms show ?thesis by (simp add: reachable.start)
  next
    case False
    with r obtain i where i: "adjacent vm s i" "reachable vm (D - {s}) i b" by blast
    from i(2) have "i \<in> D" by (auto dest: reachable_start_in)
    with assms i(1) have "reachable vm D s i" by (auto intro: reachable.intros)
    moreover from i(2) have "reachable vm D i b" by (rule reachable_mono) auto
    ultimately show ?thesis by (rule reachable_trans[rotated])
  qed
qed

lemma reachable_avoid:
  "reachable vm D j b \<Longrightarrow> \<not> reachable vm D i b \<Longrightarrow> reachable vm (D - {x. reachable vm D i x}) j b"
proof (induction rule: reachable.induct)
  case start
  then show ?case by (auto intro: reachable.start)
next
  case (step a b)
  have "\<not> reachable vm D i a"
  proof
    assume "reachable vm D i a"
    with step(2,3) have "reachable vm D i b" by (auto intro: reachable.step)
    with step(5) show False by simp
  qed
  with step have "reachable vm (D - {x. reachable vm D i x}) j a" by simp
  with step(2,3,5) show ?case by (auto intro: reachable.step)
qed

lemma dfs_visits_reachable:
  "set district \<subseteq> registered vm \<Longrightarrow>
     \<exists>d'. isContinuousHelper vm district start = Inr d' \<and>
          set d' = set district - {b. reachable vm (set district) start b}"
  "set district \<subseteq> registered vm \<Longrightarrow>
     \<exists>d'. isContinuousLoop vm district nxt = Inr d' \<and>
          set d' = set district - {b. \<exists>i \<in> set nxt. reachable vm (set district) i b}"
proof (induction vm district start and vm district nxt
       rule: isContinuousHelper_isContinuousLoop.induct)
  case (1 vm district start)
  show ?case
  proof (cases "contains district start")
    case False
    then have "\<And>b. \<not> reachable vm (set district) start b"
      by (auto simp: contains_def dest: reachable_start_in)
    with False show ?thesis by simp
  next
    case True
    then have mem: "start \<in> set district" by (simp add: contains_def)
    with 1(2) obtain nxt where n: "getAdjacentPrecincts vm start = Inr nxt"
      using getAdjacentPrecincts_registered by blast
    from 1(2) have "set (remove district start) \<subseteq> registered vm" by (auto simp: set_remove)
    from 1(1)[OF _ n this] True obtain d' where
      d': "isContinuousLoop vm (remove district start) nxt = Inr d'"
      "set d' = set (remove district start)
                  - {b. \<exists>i \<in> set nxt. reachable vm (set (remove district start)) i b}"
      by auto
    have adj: "\<And>i. adjacent vm start i \<longleftrightarrow> i \<in> set nxt"
      using n by (simp add: adjacent_def contains_def)
    have "set d' = set district - {b. reachable vm (set district) start b}"
      unfolding d'(2) set_remove using reachable_unfold[OF mem, of vm] adj by auto
    with d'(1) True n show ?thesis by simp
  qed
next
  case (2 vm district)
  then show ?case by simp
next
  case (3 vm district i nxt)
  from 3(1)[OF 3(3)] obtain d1 where
    d1: "isContinuousHelper vm district i = Inr d1"
    "set d1 = set district - {b. reachable vm (set district) i b}" by auto
  then have "set d1 \<subseteq> registered vm" using 3(3) by auto
  from 3(2)[OF d1(1) this] obtain d' where
    d': "isContinuousLoop vm d1 nxt = Inr d'"
    "set d' = set d1 - {b. \<exists>j \<in> set nxt. reachable vm (set d1) j b}" by auto
  have "set d' = set district - {b. \<exists>j \<in> set (i # nxt). reachable vm (set district) j b}"
  proof (intro set_eqI iffI)
    fix b assume b: "b \<in> set d'"
    with d'(2) d1(2) have b1: "b \<in> set district" "\<not> reachable vm (set district) i b"
      and b2: "\<forall>j \<in> set nxt. \<not> reachable vm (set d1) j b" by auto
    have "\<not> reachable vm (set district) j b" if "j \<in> set nxt" for j
    proof
      assume "reachable vm (set district) j b"
      from reachable_avoid[OF this b1(2)] have "reachable vm (set d1) j b"
        by (simp add: d1(2))
      with b2 that show False by simp
    qed
    with b1 show "b \<in> set district - {b. \<exists>j \<in> set (i # nxt). reachable vm (set district) j b}"
      by auto
  next
    fix b assume b: "b \<in> set district - {b. \<exists>j \<in> set (i # nxt). reachable vm (set district) j b}"
    then have "b \<in> set d1" by (auto simp: d1(2))
    moreover have "\<not> reachable vm (set d1) j b" if "j \<in> set nxt" for j
    proof
      assume "reachable vm (set d1) j b"
      then have "reachable vm (set district) j b" by (rule reachable_mono) (auto simp: d1(2))
      with b that show False by auto
    qed
    ultimately show "b \<in> set d'" by (auto simp: d'(2))
  qed
  with d1(1) d'(1) show ?case by simp
qed

lemma dfs_only_registered:
  "isContinuousHelper vm district start = Inr d' \<Longrightarrow>
     set d' \<subseteq> set district \<and> set district - set d' \<subseteq> registered vm"
  "isContinuousLoop vm district nxt = Inr d' \<Longrightarrow>
     set d' \<subseteq> set district \<and> set district - set d' \<subseteq> registered vm"
proof (induction vm district start and vm district nxt arbitrary: d' and d'
       rule: isContinuousHelper_isContinuousLoop.induct)
  case (1 vm district start)
  show ?case
  proof (cases "contains district start")
    case False
    with 1(2) show ?thesis by simp
  next
    case True
    with 1(2) obtain nxt where n: "getAdjacentPrecincts vm start = Inr nxt"
      and r: "isContinuousLoop vm (remove district start) nxt = Inr d'"
      by (auto split: sum.splits)
    from 1(1)[OF _ n r] True
    have "set d' \<subseteq> set (remove district start)"
      "set (remove district start) - set d' \<subseteq> registered vm" by auto
    moreover from n have "start \<in> registered vm" by (rule getAdjacentPrecincts_Inr_registered)
    ultimately show ?thesis by (auto simp: set_remove)
  qed
next
  case (2 vm district)
  then show ?case by simp
next
  case (3 vm district i nxt)
  from 3(3) obtain d1 where h: "isContinuousHelper vm district i = Inr d1"
    and r: "isContinuousLoop vm d1 nxt = Inr d'"
    by (auto split: sum.splits)
  from 3(1)[OF h] 3(2)[OF h r] show ?case by auto
qed


subsection \<open>The continuity walk and the validator\<close>

lemma set_foldl_remove: "set (foldl remove s xs) = set s - set xs"
  by (induction xs arbitrary: s) (auto simp: set_remove)

lemma isContinuous_registered:
  assumes "district \<noteq> []" "set district \<subseteq> registered vm"
  shows "isContinuous vm district =
           Inr (\<forall>m \<in> set district. reachable vm (set district) (hd district) m)"
proof -
  from assms(1) have f: "first district = Inr (hd district)"
    by (cases district) (auto simp: first_def)
  from dfs_visits_reachable(1)[OF assms(2), of "hd district"] obtain d' where
    d': "isContinuousHelper vm district (hd district) = Inr d'"
    "set d' = set district - {b. reachable vm (set district) (hd district) b}" by auto
  have "isEmpty d' \<longleftrightarrow> set d' = {}" by (simp add: isEmpty_def)
  also have "\<dots> \<longleftrightarrow> (\<forall>m \<in> set district. reachable vm (set district) (hd district) m)"
    unfolding d'(2) by auto
  finally show ?thesis using f d'(1) by (simp add: isContinuous_def)
qed

lemma isContinuous_True_registered:
  assumes "isContinuous vm district = Inr True"
  shows "district \<noteq> [] \<and> set district \<subseteq> registered vm"
proof -
  from assms obtain s d' where s: "first district = Inr s"
    and h: "isContinuousHelper vm district s = Inr d'" and e: "isEmpty d'"
    by (auto simp: isContinuous_def split: sum.splits)
  from s have "district \<noteq> []" by (auto simp: first_def)
  moreover from dfs_only_registered(1)[OF h] e have "set district \<subseteq> registered vm"
    by (auto simp: isEmpty_def)
  ultimately show ?thesis by simp
qed

lemma reachable_pair:
  assumes "a \<noteq> b"
  shows "reachable vm {a, b} a b \<longleftrightarrow> adjacent vm a b"
proof
  assume "reachable vm {a, b} a b"
  from reachable_first_step[OF this] assms obtain i where
    i: "adjacent vm a i" "reachable vm ({a, b} - {a}) i b" by auto
  from i(2) have "i \<in> {a, b} - {a}" by (rule reachable_start_in)
  with i(1) show "adjacent vm a b" by auto
next
  assume "adjacent vm a b"
  then show "reachable vm {a, b} a b"
    by (auto intro: reachable.step reachable.start)
qed

lemma isValidPlan_precincts_registered:
  "set district \<subseteq> registered vm \<Longrightarrow> int32 p = p \<Longrightarrow>
     isValidPlan_precincts vm district p ids =
       Inr (int32 (p + districtPopulation vm district), foldl remove ids district)"
proof (induction district arbitrary: p ids)
  case Nil
  then show ?case by (simp add: districtPopulation_def)
next
  case (Cons i district)
  then obtain d where d: "getDemographic vm i = Inr d"
    using getDemographic_registered[of i vm] by auto
  from Cons.prems have sub: "set district \<subseteq> registered vm" by simp
  have "isValidPlan_precincts vm district (int32 (p + pop d)) (remove ids i)
          = Inr (int32 (int32 (p + pop d) + districtPopulation vm district),
                 foldl remove (remove ids i) district)"
    using sub by (rule Cons.IH) (rule int32_idem)
  also have "int32 (int32 (p + pop d) + districtPopulation vm district)
               = int32 (p + districtPopulation vm (i # district))"
    using d by (simp add: int32_add_left districtPopulation_def populationOf_def add.assoc)
  finally show ?case using d by simp
qed

lemma isValidPlan_districts_step:
  assumes "isContinuous vm d = Inr True"
  shows "isValidPlan_districts vm margin mean (d # rest) allIDs =
           (if outsideMargin mean margin (int32 (districtPopulation vm d)) then Inr False
            else isValidPlan_districts vm margin mean rest (foldl remove allIDs d))"
proof -
  from isContinuous_True_registered[OF assms] have "set d \<subseteq> registered vm" by simp
  then have "isValidPlan_precincts vm d 0 allIDs
               = Inr (int32 (0 + districtPopulation vm d), foldl remove allIDs d)"
    by (rule isValidPlan_precincts_registered) (simp add: int32_def)
  with assms show ?thesis by (simp add: outsideMargin_def)
qed

lemma isValidPlan_districts_True_iff:
  "isValidPlan_districts vm margin mean districts allIDs = Inr True \<longleftrightarrow>
     (\<forall>d \<in> set districts. isContinuous vm d = Inr True \<and>
        \<not> outsideMargin mean margin (int32 (districtPopulation vm d))) \<and>
     set allIDs \<subseteq> (\<Union>d \<in> set districts. set d)"
proof (induction districts arbitrary: allIDs)
  case Nil
  then show ?case by (simp add: isEmpty_def)
next
  case (Cons d rest)
  show ?case
  proof (cases "isContinuous vm d = Inr True")
    case True
    have "set (foldl remove allIDs d) \<subseteq> (\<Union>d \<in> set rest. set d) \<longleftrightarrow>
          set allIDs \<subseteq> (\<Union>d \<in> set (d # rest). set d)"
      by (auto simp: set_foldl_remove)
    with Cons[of "foldl remove allIDs d"] True show ?thesis
      unfolding isValidPlan_districts_step[OF True] by auto
  next
    case False
    then have "isValidPlan_districts vm margin mean (d # rest) allIDs \<noteq> Inr True"
      by (auto split: sum.splits)
    with False show ?thesis by auto
  qed
qed

lemma isValidPlan_True_iff:
  "isValidPlan vm districts margin = Inr True \<longleftrightarrow>
     (\<exists>mean. cdiv (totalPop vm) (int (length districts)) = Inr mean \<and>
        (\<forall>d \<in> set districts. isContinuous vm d = Inr True \<and>
           \<not> outsideMargin mean margin (int32 (districtPopulation vm d))) \<and>
        set (precinctSet vm) \<subseteq> (\<Union>d \<in> set districts. set d))"
  by (auto simp: isValidPlan_def isValidPlan_districts_True_iff split: sum.splits)

lemma cdiv_truncates:
  assumes "0 < n" "inIntRange t"
  shows "cdiv t n = Inr (sgn t * (\<bar>t\<bar> div n))"
proof -
  have "\<bar>t\<bar> div n \<le> \<bar>t\<bar>" 
  proof -
    have "\<bar>t\<bar> div n \<le> \<bar>t\<bar> div 1" using assms(1) by (intro zdiv_mono2) auto
    then show ?thesis by simp
  qed
  moreover have "0 \<le> \<bar>t\<bar> div n" using assms(1) by (simp add: pos_imp_zdiv_nonneg_iff)
  ultimately have "inIntRange (sgn t * (\<bar>t\<bar> div n))"
    using assms(2) by (cases "0 \<le> t") (auto simp: inIntRange_def sgn_if)
  then have "int32 (sgn t * (\<bar>t\<bar> div n)) = sgn t * (\<bar>t\<bar> div n)" by (rule int32_inIntRange)
  with assms(1) show ?thesis by (simp add: cdiv_def)
qed

lemma isValidPlan_True_registered:
  assumes "isValidPlan vm districts margin = Inr True" "d \<in> set districts"
  shows "set d \<subseteq> registered vm"
  using assms isContinuous_True_registered[of vm d] by (auto simp: isValidPlan_True_iff)

lemma reachable_sym:
  assumes sym: "\<forall>a \<in> D. \<forall>b \<in> D. adjacent vm a b \<longrightarrow> adjacent vm b a"
  shows "reachable vm D s t \<Longrightarrow> reachable vm D t s"
proof (induction rule: reachable.induct)
  case start
  then show ?case by (rule reachable.start)
next
  case (step a b)
  from step(1) have "a \<in> D" by (rule reachable_in)
  with sym step(2,3) have "adjacent vm b a" by blast
  with step(3) \<open>a \<in> D\<close> have "reachable vm D b a"
    by (auto intro: reachable.step reachable.start)
  with step(4) show ?case by (rule reachable_trans)
qed

lemma reachable_any_start:
  assumes sym: "\<forall>a \<in> D. \<forall>b \<in> D. adjacent vm a b \<longrightarrow> adjacent vm b a"
    and s: "s \<in> D" and t: "t \<in> D"
  shows "(\<forall>m \<in> D. reachable vm D s m) \<longleftrightarrow> (\<forall>m \<in> D. reachable vm D t m)"
proof -
  have one: "\<forall>m \<in> D. reachable vm D v m" if u: "u \<in> D" and v: "v \<in> D"
    and all: "\<forall>m \<in> D. reachable vm D u m" for u v
  proof
    fix m assume "m \<in> D"
    with all have "reachable vm D u m" by blast
    moreover from all v have "reachable vm D u v" by blast
    then have "reachable vm D v u" by (rule reachable_sym[OF sym])
    ultimately show "reachable vm D v m" by (rule reachable_trans)
  qed
  from one[OF s t] one[OF t s] show ?thesis by blast
qed

lemma isContinuous_unregistered_start:
  assumes "district \<noteq> []" "hd district \<notin> registered vm"
  shows "isContinuous vm district = Inl (NoAreaForId (hd district))"
proof -
  from assms(1) obtain x xs where d: "district = x # xs" by (cases district) auto
  then have f: "first district = Inr (hd district)" by (simp add: first_def)
  from d have c: "contains district (hd district)" by (simp add: contains_def)
  from assms(2) have "getAdjacentPrecincts vm (hd district) = Inl (NoAreaForId (hd district))"
    by (auto simp: registered_iff containsArea_def getAdjacentPrecincts_def getArea_def)
  with f c show ?thesis by (simp add: isContinuous_def)
qed

subsection \<open>The sums of the score\<close>

lemma howGerrymandered_precincts_registered:
  "set district \<subseteq> registered vm \<Longrightarrow> int32 (dem info) = dem info \<Longrightarrow>
   int32 (rep info) = rep info \<Longrightarrow>
     howGerrymandered_precincts vm district info =
       Inr (info\<lparr>dem := int32 (dem info + districtDem vm district),
                 rep := int32 (rep info + districtRep vm district)\<rparr>)"
proof (induction district arbitrary: info)
  case Nil
  then show ?case by (simp add: districtDem_def districtRep_def)
next
  case (Cons i district)
  then obtain d where d: "getDemographic vm i = Inr d"
    using getDemographic_registered[of i vm] by auto
  let ?info = "info\<lparr>dem := int32 (dem info + dem d), rep := int32 (rep info + rep d)\<rparr>"
  from Cons.prems(1) have r: "set district \<subseteq> registered vm" by simp
  have "howGerrymandered_precincts vm district ?info =
          Inr (?info\<lparr>dem := int32 (dem ?info + districtDem vm district),
                      rep := int32 (rep ?info + districtRep vm district)\<rparr>)"
    by (rule Cons.IH[OF r]) (simp_all add: int32_idem)
  with d show ?case
    by (simp add: districtDem_def districtRep_def demOf_def repOf_def int32_add_left
        add.assoc)
qed

lemma howGerrymandered_precincts_inRange:
  assumes "set district \<subseteq> registered vm"
    "inIntRange (districtDem vm district)" "inIntRange (districtRep vm district)"
  shows "howGerrymandered_precincts vm district \<lparr>dem = 0, rep = 0, pop = 0\<rparr> =
           Inr \<lparr>dem = districtDem vm district, rep = districtRep vm district, pop = 0\<rparr>"
proof -
  have z: "int32 0 = 0" by (simp add: int32_def)
  from howGerrymandered_precincts_registered[OF assms(1), of "\<lparr>dem = 0, rep = 0, pop = 0\<rparr>"]
    int32_inIntRange[OF assms(2)] int32_inIntRange[OF assms(3)] z
  show ?thesis by simp
qed

lemma howGerrymandered_districts_registered:
  "\<forall>d \<in> set districts. set d \<subseteq> registered vm \<and>
      inIntRange (districtDem vm d) \<and> inIntRange (districtRep vm d) \<Longrightarrow>
   int32 demWaste = demWaste \<Longrightarrow> int32 repWaste = repWaste \<Longrightarrow>
   int32 totalVotes = totalVotes \<Longrightarrow>
     howGerrymandered_districts vm districts demWaste repWaste totalVotes =
       Inr (int32 (demWaste + sumDemWasted vm districts),
            int32 (repWaste + sumRepWasted vm districts),
            int32 (totalVotes + totalVotesOf vm districts))"
proof (induction districts arbitrary: demWaste repWaste totalVotes)
  case Nil
  then show ?case by (simp add: sumDemWasted_def sumRepWasted_def totalVotesOf_def)
next
  case (Cons d districts)
  let ?dw = "int32 (demWaste + int32 (demWasted (districtDem vm d) (districtRep vm d)))"
  let ?rw = "int32 (repWaste + int32 (repWasted (districtDem vm d) (districtRep vm d)))"
  let ?tv = "int32 (totalVotes + int32 (districtDem vm d + districtRep vm d))"
  from Cons.prems(1) have d: "set d \<subseteq> registered vm"
    "inIntRange (districtDem vm d)" "inIntRange (districtRep vm d)" by simp_all
  from Cons.prems(1) have r: "\<forall>d \<in> set districts. set d \<subseteq> registered vm \<and>
      inIntRange (districtDem vm d) \<and> inIntRange (districtRep vm d)" by simp
  have s: "howGerrymandered_districts vm (d # districts) demWaste repWaste totalVotes
             = howGerrymandered_districts vm districts ?dw ?rw ?tv"
    by (simp add: howGerrymandered_precincts_inRange[OF d])
  have "howGerrymandered_districts vm districts ?dw ?rw ?tv =
          Inr (int32 (?dw + sumDemWasted vm districts),
               int32 (?rw + sumRepWasted vm districts),
               int32 (?tv + totalVotesOf vm districts))"
    by (rule Cons.IH[OF r]) (simp_all add: int32_idem)
  also have "int32 (?dw + sumDemWasted vm districts)
               = int32 (demWaste + sumDemWasted vm (d # districts))"
    by (simp add: int32_add_left int32_add_right sumDemWasted_def add.assoc)
  also have "int32 (?rw + sumRepWasted vm districts)
               = int32 (repWaste + sumRepWasted vm (d # districts))"
    by (simp add: int32_add_left int32_add_right sumRepWasted_def add.assoc)
  also have "int32 (?tv + totalVotesOf vm districts)
               = int32 (totalVotes + totalVotesOf vm (d # districts))"
    by (simp add: int32_add_left int32_add_right totalVotesOf_def add.assoc)
  finally show ?case using s by simp
qed

lemma cdiv_nonneg: "0 \<le> a \<Longrightarrow> inIntRange a \<Longrightarrow> 0 < b \<Longrightarrow> cdiv a b = Inr (a div b)"
  using cdiv_truncates[of b a] by (simp add: sgn_if)

lemma inIntRange_gap:
  assumes "inIntRange (100 * \<bar>a - b\<bar>)"
  shows "int32 (100 * int32 \<bar>int32 (int32 a - int32 b)\<bar>) = 100 * \<bar>a - b\<bar>"
proof -
  have "\<bar>a - b\<bar> \<le> 100 * \<bar>a - b\<bar>" by simp
  with assms have "\<bar>a - b\<bar> < 2 ^ 31" unfolding inIntRange_def by linarith
  then have x: "inIntRange (a - b)" and y: "inIntRange \<bar>a - b\<bar>"
    unfolding inIntRange_def by linarith+
  have "int32 (int32 a - int32 b) = a - b"
    by (simp add: int32_diff int32_inIntRange[OF x])
  then show ?thesis
    by (simp add: int32_inIntRange[OF y] int32_inIntRange[OF assms])
qed

lemma howGerrymandered_valid:
  assumes "isValidPlan vm districts POPULATION_MARGIN = Inr True"
    and "\<forall>d \<in> set districts. inIntRange (districtDem vm d) \<and> inIntRange (districtRep vm d)"
    and "inIntRange (totalVotesOf vm districts)"
    and "inIntRange (100 * \<bar>sumDemWasted vm districts - sumRepWasted vm districts\<bar>)"
  shows "howGerrymandered vm districts =
           cdiv (100 * \<bar>sumDemWasted vm districts - sumRepWasted vm districts\<bar>)
                (totalVotesOf vm districts)"
proof -
  have z: "int32 0 = 0" by (simp add: int32_def)
  from isValidPlan_True_registered[OF assms(1)] assms(2)
  have "\<forall>d \<in> set districts. set d \<subseteq> registered vm \<and>
      inIntRange (districtDem vm d) \<and> inIntRange (districtRep vm d)" by blast
  from howGerrymandered_districts_registered[OF this z z z]
  have "howGerrymandered_districts vm districts 0 0 0 =
          Inr (int32 (sumDemWasted vm districts), int32 (sumRepWasted vm districts),
               totalVotesOf vm districts)"
    by (simp add: int32_inIntRange[OF assms(3)])
  with assms(1) show ?thesis
    by (simp add: howGerrymandered_def inIntRange_gap[OF assms(4)])
qed

lemma efficiencyGapPercent_div:
  "efficiencyGapPercent vm districts =
     (100 * \<bar>sumDemWasted vm districts - sumRepWasted vm districts\<bar>) div totalVotesOf vm districts"
proof -
  have "100 * \<bar>real_of_int (sumDemWasted vm districts) - real_of_int (sumRepWasted vm districts)\<bar>
        = real_of_int (100 * \<bar>sumDemWasted vm districts - sumRepWasted vm districts\<bar>)"
    by simp
  then show ?thesis
    unfolding efficiencyGapPercent_def by (simp only: floor_divide_of_int_eq)
qed

lemma wasted_gap_bound:
  "0 \<le> d \<Longrightarrow> 0 \<le> r \<Longrightarrow> 0 < d + r \<Longrightarrow> \<bar>demWasted d r - repWasted d r\<bar> \<le> d + r"
  by (auto simp: demWasted_def repWasted_def)

lemma sum_wasted_gap_bound:
  assumes "\<forall>d \<in> set districts. (\<forall>i \<in> set d. 0 \<le> demOf vm i \<and> 0 \<le> repOf vm i)
             \<and> 0 < districtDem vm d + districtRep vm d"
  shows "\<bar>sumDemWasted vm districts - sumRepWasted vm districts\<bar> \<le> totalVotesOf vm districts"
  using assms
proof (induction districts)
  case Nil
  then show ?case by (simp add: sumDemWasted_def sumRepWasted_def totalVotesOf_def)
next
  case (Cons d districts)
  then have nn: "\<forall>i \<in> set d. 0 \<le> demOf vm i \<and> 0 \<le> repOf vm i"
    and pos: "0 < districtDem vm d + districtRep vm d" by auto
  from nn have "0 \<le> districtDem vm d" "0 \<le> districtRep vm d"
    by (auto simp: districtDem_def districtRep_def intro!: sum_list_nonneg)
  from wasted_gap_bound[OF this pos]
  have "\<bar>demWasted (districtDem vm d) (districtRep vm d)
          - repWasted (districtDem vm d) (districtRep vm d)\<bar>
        \<le> districtDem vm d + districtRep vm d" .
  moreover from Cons have
    "\<bar>sumDemWasted vm districts - sumRepWasted vm districts\<bar> \<le> totalVotesOf vm districts"
    by simp
  ultimately show ?case
    by (simp add: sumDemWasted_def sumRepWasted_def totalVotesOf_def)
qed

subsection \<open>The random builder takes free precincts only\<close>

lemma randomInteger_index:
  assumes "v \<noteq> []" "randomInteger g 0 (int (length v) - 1) = (index, g1)"
  shows "0 \<le> index \<and> index < int (length v)"
proof -
  from assms(1) have l: "0 < length v" by simp
  then have m: "g 0 mod length v < length v" by simp
  from l have n: "nat (int (length v) - 1 - 0 + 1) = length v" by simp
  from assms(2) l have "index = int (g 0 mod length v)"
    unfolding randomInteger_def n by simp
  with m show ?thesis by simp
qed

lemma vget_index:
  "0 \<le> i \<Longrightarrow> i < int (length v) \<Longrightarrow> vget v i = Inr (v ! nat i) \<and> v ! nat i \<in> set v"
  by (simp add: vget_def)

lemma vremove_index:
  assumes "0 \<le> i" "i < int (length v)"
  shows "\<exists>v'. vremove v i = Inr v' \<and> set v \<subseteq> insert (v ! nat i) (set v')"
proof -
  let ?v' = "take (nat i) v @ drop (Suc (nat i)) v"
  from assms have n: "nat i < length v" by simp
  have "set (take (nat i) v @ v ! nat i # drop (Suc (nat i)) v) = insert (v ! nat i) (set ?v')"
    by simp
  then have "set v = insert (v ! nat i) (set ?v')"
    by (simp only: id_take_nth_drop[OF n, symmetric])
  then have "set v \<subseteq> insert (v ! nat i) (set ?v')" by (rule equalityD1)
  moreover from assms have "vremove v i = Inr ?v'" by (simp add: vremove_def)
  ultimately show ?thesis by blast
qed

lemma createRandomDistrict_takes_free:
  "curID \<in> set ids \<Longrightarrow> set ids \<subseteq> registered vm \<Longrightarrow>
     \<exists>d' p' ids' g'.
       createRandomDistrict vm district curID districtPop maxPop ids g = Inr (d', p', ids', g') \<and>
       set ids' \<subseteq> set ids \<and> set d' = set district \<union> (set ids - set ids') \<and>
       (districtPop < maxPop \<longrightarrow> curID \<notin> set ids')"
  "set ids \<subseteq> registered vm \<Longrightarrow>
     \<exists>d' p' ids' g'.
       createRandomDistrict_loop vm district districtPop maxPop ids adj g = Inr (d', p', ids', g') \<and>
       set ids' \<subseteq> set ids \<and> set d' = set district \<union> (set ids - set ids')"
proof (induction vm district curID districtPop maxPop ids g
         and vm district districtPop maxPop ids adj g
       rule: createRandomDistrict_createRandomDistrict_loop.induct)
  case (1 vm district curID districtPop maxPop ids g)
  show ?case
  proof (cases "districtPop \<ge> maxPop")
    case True
    then show ?thesis
      by (simp add: createRandomDistrict.simps[of vm district curID districtPop maxPop ids g])
  next
    case False
    from "1.prems" have "curID \<in> registered vm" by auto
    then obtain curDemo adjSet where
      c: "getDemographic vm curID = Inr curDemo" and a: "getAdjacentPrecincts vm curID = Inr adjSet"
      using getDemographic_registered getAdjacentPrecincts_registered by blast
    from "1.prems" have "set (remove ids curID) \<subseteq> registered vm" by (auto simp: set_remove)
    from "1.IH"[OF False c a this] obtain d' p' ids' g' where
      r: "createRandomDistrict_loop vm (add district curID) (int32 (districtPop + pop curDemo))
            maxPop (remove ids curID) (setToVector adjSet) g = Inr (d', p', ids', g')"
      and s: "set ids' \<subseteq> set (remove ids curID)"
        "set d' = set (add district curID) \<union> (set (remove ids curID) - set ids')"
      by blast
    from s "1.prems"(1) have "set ids' \<subseteq> set ids" "curID \<notin> set ids'"
      "set d' = set district \<union> (set ids - set ids')"
      by (auto simp: set_remove set_add)
    with False c a r show ?thesis
      by (simp add: createRandomDistrict.simps[of vm district curID districtPop maxPop ids g])
  qed
next
  case (2 vm district districtPop maxPop ids adj g)
  note unfold = createRandomDistrict_loop.simps[of vm district districtPop maxPop ids adj g]
  show ?case
  proof (cases "isEmpty adj")
    case True
    then show ?thesis by (simp add: unfold)
  next
    case False
    then have ne: "adj \<noteq> []" by (simp add: isEmpty_def)
    obtain index g1 where ri: "randomInteger g 0 (int (length adj) - 1) = (index, g1)"
      by (cases "randomInteger g 0 (int (length adj) - 1)")
    from randomInteger_index[OF ne ri] have ix: "0 \<le> index" "index < int (length adj)" by auto
    from vget_index[OF ix] obtain neighbour where n: "vget adj index = Inr neighbour" by blast
    from vremove_index[OF ix] obtain adj' where v: "vremove adj index = Inr adj'" by blast
    show ?thesis
    proof (cases "contains ids neighbour")
      case True
      then have "neighbour \<in> set ids" by (simp add: contains_def)
      from "2.IH"(1)[OF False ri[symmetric] n True this "2.prems"] obtain d1 p1 ids1 g2 where
        h: "createRandomDistrict vm district neighbour districtPop maxPop ids g1 = Inr (d1, p1, ids1, g2)"
        and s1: "set ids1 \<subseteq> set ids" "set d1 = set district \<union> (set ids - set ids1)"
        by blast
      from s1(1) "2.prems" have "set ids1 \<subseteq> registered vm" by auto
      from "2.IH"(2)[OF False ri[symmetric] n True h refl refl refl v this]
      obtain d' p' ids' g' where
        r: "createRandomDistrict_loop vm d1 p1 maxPop ids1 adj' g2 = Inr (d', p', ids', g')"
        and s2: "set ids' \<subseteq> set ids1" "set d' = set d1 \<union> (set ids1 - set ids')"
        by blast
      from s1 s2 have "set ids' \<subseteq> set ids" "set d' = set district \<union> (set ids - set ids')"
        by auto
      with False ri n v True h r show ?thesis by (simp add: unfold)
    next
      case nc: False
      from "2.IH"(3)[OF False ri[symmetric] n nc v "2.prems"] obtain d' p' ids' g' where
        r: "createRandomDistrict_loop vm district districtPop maxPop ids adj' g1 = Inr (d', p', ids', g')"
        and s: "set ids' \<subseteq> set ids" "set d' = set district \<union> (set ids - set ids')"
        by blast
      with False ri n v nc show ?thesis by (simp add: unfold)
    qed
  qed
qed


lemma createRandomPlanHelper_loop_partition:
  "set ids \<subseteq> set all \<Longrightarrow> set ids \<subseteq> registered vm \<Longrightarrow> 0 < maxPop \<Longrightarrow>
   [] \<notin> set districts \<Longrightarrow> pairwiseDisjoint districts \<Longrightarrow>
   (\<forall>d \<in> set districts. set d \<inter> set ids = {}) \<Longrightarrow>
     \<exists>districts' g'.
       createRandomPlanHelper_loop vm maxPop districts ids all g = Inr (districts', [], g') \<and>
       [] \<notin> set districts' \<and> pairwiseDisjoint districts' \<and>
       (\<Union>d \<in> set districts'. set d) = (\<Union>d \<in> set districts. set d) \<union> set ids"
proof (induction vm maxPop districts ids all g rule: createRandomPlanHelper_loop.induct)
  case (1 vm maxPop districts ids all g)
  note unfold = createRandomPlanHelper_loop.simps[of vm maxPop districts ids all g]
  show ?case
  proof (cases "isEmpty ids")
    case True
    then have "createRandomPlanHelper_loop vm maxPop districts ids all g = Inr (districts, ids, g)"
      by (simp add: unfold)
    moreover from True have "ids = []" by (simp add: isEmpty_def)
    ultimately show ?thesis using "1.prems"(4,5) by auto
  next
    case False
    with "1.prems"(1) have ne: "all \<noteq> []" by (auto simp: isEmpty_def)
    obtain index g1 where ri: "randomInteger g 0 (int (length all) - 1) = (index, g1)"
      by (cases "randomInteger g 0 (int (length all) - 1)")
    from randomInteger_index[OF ne ri] have ix: "0 \<le> index" "index < int (length all)" by auto
    from vget_index[OF ix] obtain seed where n: "vget all index = Inr seed"
      and seed: "seed = all ! nat index" by blast
    from vremove_index[OF ix] seed obtain all' where v: "vremove all index = Inr all'"
      and sub: "set all \<subseteq> insert seed (set all')" by blast
    show ?thesis
    proof (cases "contains ids seed")
      case True
      then have mem: "seed \<in> set ids" by (simp add: contains_def)
      from createRandomDistrict_takes_free(1)[OF mem "1.prems"(2), of "[]" 0 maxPop g1]
      obtain cur p ids' g2 where
        h: "createRandomDistrict vm [] seed 0 maxPop ids g1 = Inr (cur, p, ids', g2)"
        and s1: "set ids' \<subseteq> set ids" and s2: "set cur = set ids - set ids'"
        and s3: "0 < maxPop \<longrightarrow> seed \<notin> set ids'"
        by auto
      from s3 "1.prems"(3) have out: "seed \<notin> set ids'" by simp
      with mem s2 have cur_ne: "cur \<noteq> []" by auto
      have a1: "set ids' \<subseteq> set all'" using s1 out sub "1.prems"(1) by blast
      have a2: "set ids' \<subseteq> registered vm" using s1 "1.prems"(2) by blast
      have a4: "[] \<notin> set (add districts cur)" using cur_ne "1.prems"(4) by (simp add: set_add)
      have a5: "pairwiseDisjoint (add districts cur)"
        using "1.prems"(5,6) s2 unfolding pairwiseDisjoint_def set_add by blast
      have a6: "\<forall>d \<in> set (add districts cur). set d \<inter> set ids' = {}"
        using "1.prems"(6) s1 s2 unfolding set_add by blast
      from "1.IH"(1)[OF False ri[symmetric] n True h refl refl refl v a1 a2 "1.prems"(3) a4 a5 a6]
      obtain districts' g' where
        r: "createRandomPlanHelper_loop vm maxPop (add districts cur) ids' all' g2
              = Inr (districts', [], g')"
        and t: "[] \<notin> set districts'" "pairwiseDisjoint districts'"
          "(\<Union>d \<in> set districts'. set d) = (\<Union>d \<in> set (add districts cur). set d) \<union> set ids'"
        by blast
      have "(\<Union>d \<in> set districts'. set d) = (\<Union>d \<in> set districts. set d) \<union> set ids"
        unfolding t(3) set_add using s1 s2 by auto
      with False ri n v True h r t(1,2) show ?thesis by (simp add: unfold)
    next
      case nc: False
      then have "seed \<notin> set ids" by (simp add: contains_def)
      with sub "1.prems"(1) have a1: "set ids \<subseteq> set all'" by blast
      from "1.IH"(2)[OF False ri[symmetric] n nc v a1 "1.prems"(2-6)]
      obtain districts' g' where
        r: "createRandomPlanHelper_loop vm maxPop districts ids all' g1 = Inr (districts', [], g')"
        and t: "[] \<notin> set districts'" "pairwiseDisjoint districts'"
          "(\<Union>d \<in> set districts'. set d) = (\<Union>d \<in> set districts. set d) \<union> set ids"
        by blast
      with False ri n v nc show ?thesis by (simp add: unfold)
    qed
  qed
qed

lemma set_setToVector: "set (setToVector s) = set s"
proof -
  have "foldl (\<lambda>vec element. vec @ [element]) acc s = acc @ s" for acc
    by (induction s arbitrary: acc) auto
  then show ?thesis by (simp add: setToVector_def)
qed

subsection \<open>Wasted votes\<close>



subsection \<open>Scoring a rejected plan\<close>

text \<open>
  Claim C4. For every plan that \<open>isValidPlan\<close> rejects at the default margin,
  \<open>howGerrymandered\<close> returns the sentinel \<open>NONE\<close> (it neither raises an error nor
  computes a score), and the sentinel differs from every non-negative number, so from
  every percentage.
\<close>

theorem rejected_plan_scores_NONE:
  "isValidPlan vm districts POPULATION_MARGIN = Inr False \<Longrightarrow>
     howGerrymandered vm districts = Inr NONE \<and> (\<forall>p \<ge> 0. NONE \<noteq> p)"
  by (simp add: howGerrymandered_def NONE_def)

text \<open>The plan \<open>{{50001, 50005}}\<close> of the program's test covers two of the seven
  precincts, which are not adjacent.\<close>

theorem rejected_plan_scores_NONE_witness:
  "isValidPlan customPrecincts badPlan POPULATION_MARGIN = Inr False \<and>
   howGerrymandered customPrecincts badPlan = Inr NONE \<and> NONE \<noteq> 0 \<and> NONE \<noteq> 100"
proof -
  have rejected: "isValidPlan customPrecincts badPlan POPULATION_MARGIN = Inr False"
    by code_simp
  from rejected_plan_scores_NONE [OF rejected] rejected show ?thesis by auto
qed

subsection \<open>The threshold test\<close>

text \<open>
  Claim C8 as stated fails: the sentinel is \<open>- 1\<close>, which is greater than a threshold
  below \<open>- 1\<close>. The rejected plan of the test is reported as gerrymandered at the
  threshold \<open>- 2\<close>.
\<close>

theorem rejected_plan_gerrymandered_counterexample:
  "isValidPlan customPrecincts badPlan POPULATION_MARGIN = Inr False \<and>
   isGerrymandered customPrecincts badPlan (- 2) = Inr True"
  by code_simp

text \<open>
  Claim C8, amended. For every plan and every threshold \<open>t\<close>, \<open>isGerrymandered\<close> returns
  true exactly when the score is greater than \<open>t\<close>, false exactly when the score is at
  most \<open>t\<close>; for every plan rejected at the default margin it returns false for every
  threshold \<open>t \<ge> - 1\<close>, in particular for every non-negative percentage.
\<close>

theorem isGerrymandered_iff_score_above:
  "(isGerrymandered vm districts t = Inr True \<longleftrightarrow>
      (\<exists>score. howGerrymandered vm districts = Inr score \<and> score > t)) \<and>
   (isGerrymandered vm districts t = Inr False \<longleftrightarrow>
      (\<exists>score. howGerrymandered vm districts = Inr score \<and> score \<le> t)) \<and>
   (isValidPlan vm districts POPULATION_MARGIN = Inr False \<and> - 1 \<le> t \<longrightarrow>
      isGerrymandered vm districts t = Inr False)"
  by (auto simp: isGerrymandered_def howGerrymandered_def NONE_def split: sum.splits)

theorem isGerrymandered_iff_score_above_witness:
  "isValidPlan customPrecincts badPlan POPULATION_MARGIN = Inr False \<and> (- 1::int) \<le> 7 \<and>
   isGerrymandered customPrecincts badPlan 7 = Inr False"
proof -
  have rejected: "isValidPlan customPrecincts badPlan POPULATION_MARGIN = Inr False"
    by code_simp
  with isGerrymandered_iff_score_above [of customPrecincts badPlan 7] show ?thesis by simp
qed

subsection \<open>Coverage of the registry\<close>

text \<open>
  Claim C3 as stated fails: \<open>isValidPlan\<close> removes the members of every district from
  the set of all ids and tests that nothing is left; removing an id a second time
  changes nothing, so a precinct shared by two districts goes unnoticed. In the row of
  three precincts the plan \<open>{{1, 2}, {2, 3}}\<close> is accepted at the default margin
  although precinct 2 belongs to both districts.
\<close>

theorem double_assignment_accepted_counterexample:
  "isValidPlan rowMap overlappingPlan POPULATION_MARGIN = Inr True \<and>
   [1, 2] \<in> set overlappingPlan \<and> [2, 3] \<in> set overlappingPlan \<and> [1, 2] \<noteq> [2, 3::int] \<and>
   2 \<in> set [1, 2::int] \<inter> set [2, 3]"
  by code_simp

text \<open>
  Claim C3, amended. For every plan that \<open>isValidPlan\<close> accepts, at any margin, the union
  of the district id-sets equals the registered precinct id set; a plan that leaves a
  registered precinct uncovered is not accepted.
\<close>

theorem valid_plan_covers_registry:
  "(isValidPlan vm districts margin = Inr True \<longrightarrow>
      (\<Union>d \<in> set districts. set d) = set (precinctSet vm)) \<and>
   ((\<exists>i. i \<in> set (precinctSet vm) \<and> i \<notin> (\<Union>d \<in> set districts. set d)) \<longrightarrow>
      isValidPlan vm districts margin \<noteq> Inr True)"
proof -
  have cover: "(\<Union>d \<in> set districts. set d) = set (precinctSet vm)"
    if v: "isValidPlan vm districts margin = Inr True"
  proof
    show "(\<Union>d \<in> set districts. set d) \<subseteq> set (precinctSet vm)"
      using isValidPlan_True_registered[OF v] by (auto simp: registered_def)
    show "set (precinctSet vm) \<subseteq> (\<Union>d \<in> set districts. set d)"
      using v unfolding isValidPlan_True_iff by blast
  qed
  then show ?thesis by blast
qed

theorem valid_plan_covers_registry_witness:
  "isValidPlan rowMap [[1, 2, 3]] POPULATION_MARGIN = Inr True \<and>
   (\<Union>d \<in> set [[1, 2, 3]]. set d) = set (precinctSet rowMap) \<and>
   3 \<in> set (precinctSet rowMap) \<and> 3 \<notin> (\<Union>d \<in> set [[1, 2::int]]. set d) \<and>
   isValidPlan rowMap [[1, 2]] POPULATION_MARGIN \<noteq> Inr True"
proof -
  have a: "isValidPlan rowMap [[1, 2, 3]] POPULATION_MARGIN = Inr True"
    by code_simp
  have b: "3 \<in> set (precinctSet rowMap)"
    by code_simp
  have c: "3 \<notin> (\<Union>d \<in> set [[1, 2::int]]. set d)"
    by simp
  from valid_plan_covers_registry [of rowMap "[[1, 2, 3]]" POPULATION_MARGIN]
       valid_plan_covers_registry [of rowMap "[[1, 2]]" POPULATION_MARGIN] a b c
  show ?thesis by blast
qed

subsection \<open>Continuity\<close>

text \<open>
  Claim C5. The start member of the walk is the first member of the district. For every
  non-empty district of registered precincts, \<open>isContinuous\<close> returns true if and only
  if every member is reachable from the start member along adjacency edges that stay
  inside the district; where adjacency is symmetric inside the district, the same holds
  with any member as the start. The walk removes a member when it visits it, and a later
  call on an id that is no longer in the district returns at once, so no member is
  visited twice. A district of one registered precinct is continuous. A district of two
  registered precincts without an adjacency path from the first to the second is not
  continuous, and no plan that contains it is accepted, at any margin. (A start member
  that is not registered makes the lookup of the registry fail.)
\<close>

theorem isContinuous_iff_reachable:
  "(district \<noteq> [] \<and> set district \<subseteq> registered vm \<longrightarrow>
      isContinuous vm district =
        Inr (\<forall>m \<in> set district. reachable vm (set district) (hd district) m)) \<and>
   (district \<noteq> [] \<and> set district \<subseteq> registered vm \<and> s \<in> set district \<and>
    (\<forall>a \<in> set district. \<forall>b \<in> set district. adjacent vm a b \<longrightarrow> adjacent vm b a) \<longrightarrow>
      isContinuous vm district = Inr (\<forall>m \<in> set district. reachable vm (set district) s m)) \<and>
   (\<not> contains district start \<longrightarrow> isContinuousHelper vm district start = Inr district) \<and>
   (x \<in> registered vm \<longrightarrow> isContinuous vm [x] = Inr True) \<and>
   (a \<in> registered vm \<and> b \<in> registered vm \<and> a \<noteq> b \<and> \<not> reachable vm {a, b} a b \<longrightarrow>
      isContinuous vm [a, b] = Inr False \<and>
      (\<forall>districts margin. [a, b] \<in> set districts \<longrightarrow>
         isValidPlan vm districts margin \<noteq> Inr True)) \<and>
   (district \<noteq> [] \<and> hd district \<notin> registered vm \<longrightarrow>
      isContinuous vm district = Inl (NoAreaForId (hd district)))"
proof (intro conjI impI)
  assume "district \<noteq> [] \<and> set district \<subseteq> registered vm"
  then show "isContinuous vm district =
      Inr (\<forall>m \<in> set district. reachable vm (set district) (hd district) m)"
    by (simp add: isContinuous_registered)
next
  assume h: "district \<noteq> [] \<and> set district \<subseteq> registered vm \<and> s \<in> set district \<and>
    (\<forall>a \<in> set district. \<forall>b \<in> set district. adjacent vm a b \<longrightarrow> adjacent vm b a)"
  then have ne: "district \<noteq> []" and reg: "set district \<subseteq> registered vm"
    and s: "s \<in> set district"
    and sym: "\<forall>a \<in> set district. \<forall>b \<in> set district. adjacent vm a b \<longrightarrow> adjacent vm b a"
    by blast+
  from ne have hd: "hd district \<in> set district" by simp
  have "(\<forall>m \<in> set district. reachable vm (set district) (hd district) m) \<longleftrightarrow>
        (\<forall>m \<in> set district. reachable vm (set district) s m)"
    using sym hd s by (rule reachable_any_start)
  with isContinuous_registered[OF ne reg]
  show "isContinuous vm district =
      Inr (\<forall>m \<in> set district. reachable vm (set district) s m)"
    by simp
next
  assume "\<not> contains district start"
  then show "isContinuousHelper vm district start = Inr district" by simp
next
  assume "x \<in> registered vm"
  then have "isContinuous vm [x] = Inr (\<forall>m \<in> set [x]. reachable vm (set [x]) (hd [x]) m)"
    by (intro isContinuous_registered) auto
  then show "isContinuous vm [x] = Inr True"
    by (simp add: reachable.start)
next
  assume h: "a \<in> registered vm \<and> b \<in> registered vm \<and> a \<noteq> b \<and> \<not> reachable vm {a, b} a b"
  then have "isContinuous vm [a, b] =
      Inr (\<forall>m \<in> set [a, b]. reachable vm (set [a, b]) (hd [a, b]) m)"
    by (intro isContinuous_registered) auto
  with h show nc: "isContinuous vm [a, b] = Inr False" by simp
  show "\<forall>districts margin. [a, b] \<in> set districts \<longrightarrow>
          isValidPlan vm districts margin \<noteq> Inr True"
    using nc unfolding isValidPlan_True_iff by auto
next
  assume "district \<noteq> [] \<and> hd district \<notin> registered vm"
  then show "isContinuous vm district = Inl (NoAreaForId (hd district))"
    by (simp add: isContinuous_unregistered_start)
qed

theorem isContinuous_iff_reachable_witness:
  "[50004, 50005::int] \<noteq> [] \<and> set [50004, 50005] \<subseteq> registered customPrecincts \<and>
   50005 \<in> set [50004, 50005::int] \<and>
   adjacent customPrecincts 50004 50005 \<and> adjacent customPrecincts 50005 50004 \<and>
   isContinuous customPrecincts [50004, 50005] = Inr True \<and>
   reachable customPrecincts {50004, 50005} 50005 50004 \<and>
   \<not> contains [50004, 50005] (50001::int) \<and>
   isContinuousHelper customPrecincts [50004, 50005] 50001 = Inr [50004, 50005] \<and>
   50003 \<in> registered customPrecincts \<and> isContinuous customPrecincts [50003] = Inr True \<and>
   50001 \<in> registered customPrecincts \<and> 50005 \<in> registered customPrecincts \<and>
   (50001::int) \<noteq> 50005 \<and> \<not> reachable customPrecincts {50001, 50005} 50001 50005 \<and>
   isContinuous customPrecincts [50001, 50005] = Inr False \<and>
   [50001, 50005] \<in> set badPlan \<and> isValidPlan customPrecincts badPlan (ofInt 100) \<noteq> Inr True \<and>
   [99::int] \<noteq> [] \<and> hd [99] \<notin> registered customPrecincts \<and>
   isContinuous customPrecincts [99] = Inl (NoAreaForId 99)"
proof -
  have r1: "set [50004, 50005] \<subseteq> registered customPrecincts"
    by code_simp
  have r2: "50003 \<in> registered customPrecincts"
    by code_simp
  have r3: "50001 \<in> registered customPrecincts"
    by code_simp
  have r4: "50005 \<in> registered customPrecincts"
    by code_simp
  have u: "hd [99] \<notin> registered customPrecincts"
    by code_simp
  have e: "isContinuous customPrecincts [50004, 50005] = Inr True"
    by code_simp
  have ad: "adjacent customPrecincts 50004 50005" "adjacent customPrecincts 50005 50004"
    by code_simp+
  have n: "\<not> adjacent customPrecincts 50001 50005"
    by code_simp
  then have n': "\<not> reachable customPrecincts {50001, 50005} 50001 50005"
    by (simp add: reachable_pair)
  have c: "\<not> contains [50004, 50005] (50001::int)"
    by (simp add: contains_def)
  have m: "[50001, 50005] \<in> set badPlan"
    by (simp add: badPlan_def)
  have sy: "\<forall>a \<in> set [50004, 50005]. \<forall>b \<in> set [50004, 50005].
              adjacent customPrecincts a b \<longrightarrow> adjacent customPrecincts b a"
    using ad by simp
  note t1 = isContinuous_iff_reachable
    [where district = "[50004, 50005]" and vm = customPrecincts and start = 50001
       and x = 50003 and a = 50001 and b = 50005 and s = 50005]
  note t2 = isContinuous_iff_reachable
    [where district = "[99]" and vm = customPrecincts and start = 50001
       and x = 50003 and a = 50001 and b = 50005 and s = 99]
  have hyp: "[50004, 50005::int] \<noteq> [] \<and> set [50004, 50005] \<subseteq> registered customPrecincts \<and>
      50005 \<in> set [50004, 50005::int] \<and>
      (\<forall>a \<in> set [50004, 50005]. \<forall>b \<in> set [50004, 50005].
          adjacent customPrecincts a b \<longrightarrow> adjacent customPrecincts b a)"
    using r1 sy by (intro conjI) simp_all
  from t1[THEN conjunct2, THEN conjunct1, THEN mp, OF hyp] e
  have "Inr True = (Inr (\<forall>m \<in> set [50004, 50005].
          reachable customPrecincts (set [50004, 50005]) 50005 m) :: error + bool)"
    by (simp only:)
  then have w1: "reachable customPrecincts {50004, 50005} 50005 50004" by simp
  from t1 c have w2: "isContinuousHelper customPrecincts [50004, 50005] 50001 = Inr [50004, 50005]"
    by blast
  from t1 r2 have w3: "isContinuous customPrecincts [50003] = Inr True" by blast
  from t1 r3 r4 n' have w4: "isContinuous customPrecincts [50001, 50005] = Inr False"
    and w5: "\<forall>districts margin. [50001, 50005] \<in> set districts \<longrightarrow>
               isValidPlan customPrecincts districts margin \<noteq> Inr True"
    by simp_all
  from w5 m have w6: "isValidPlan customPrecincts badPlan (ofInt 100) \<noteq> Inr True" by blast
  from t2 u have w7: "isContinuous customPrecincts [99] = Inl (NoAreaForId 99)" by simp
  show ?thesis
    using r1 r2 r3 r4 u e ad n' c m w1 w2 w3 w4 w6 w7 by simp
qed

subsection \<open>Population balance\<close>

text \<open>
  Claim C6 as stated fails in two ways. The bounds are computed in double precision:
  with two singleton districts of populations 63 and 27 the mean is 45, and at the margin
  \<open>0.4\<close> the real bounds are exactly 63 and 27, so by the claim both districts are
  accepted; the program computes \<open>1 + 0.4\<close> as \<open>1.3999999999999999\<close> and the upper
  bound as \<open>62.99999999999999\<close>, and rejects the population 63. The mean is the integer
  quotient: with populations 5 and 6 it is 5, not \<open>11 / 2\<close>, and at the margin \<open>0.1\<close> the
  program rejects the population 6, which lies within one tenth of \<open>11 / 2\<close>.
\<close>

theorem population_bounds_counterexample:
  "isValidPlan boundaryMap singletonsPlan (roundDouble (4 / 10)) = Inr False \<and>
   isValidPlan boundaryMap singletonsPlan (ofInt 1) = Inr True \<and>
   districtPopulation boundaryMap [1] = 63 \<and> districtPopulation boundaryMap [2] = 27 \<and>
   real_of_int (totalPop boundaryMap) / real (length singletonsPlan) = 45 \<and>
   (63::real) = 45 * (1 + 4 / 10) \<and> (27::real) = 45 * (1 - 4 / 10) \<and>
   roundDouble (4 / 10) = Finite (3602879701896397 / 2 ^ 53) \<and>
   (63::real) \<le> 45 * (1 + 3602879701896397 / 2 ^ 53) \<and>
   (27::real) \<ge> 45 * (1 - 3602879701896397 / 2 ^ 53) \<and>
   dmul (ofInt 45) (dadd (ofInt 1) (roundDouble (4 / 10)))
     = Finite (8866461766385663 / 2 ^ 47) \<and>
   isValidPlan oddTotalMap singletonsPlan (roundDouble (1 / 10)) = Inr False \<and>
   isValidPlan oddTotalMap singletonsPlan (ofInt 1) = Inr True \<and>
   districtPopulation oddTotalMap [1] = 5 \<and> districtPopulation oddTotalMap [2] = 6 \<and>
   real_of_int (totalPop oddTotalMap) / real (length singletonsPlan) = 11 / 2 \<and>
   (5::real) \<le> 11 / 2 * (1 + 1 / 10) \<and> (5::real) \<ge> 11 / 2 * (1 - 1 / 10) \<and>
   (6::real) \<le> 11 / 2 * (1 + 1 / 10) \<and> (6::real) \<ge> 11 / 2 * (1 - 1 / 10)"
  by code_simp

text \<open>
  Claim C6, amended. For every plan and margin, \<open>isValidPlan\<close> applies the
  population-balance test with the mean \<open>totalPopulation / numberOfDistricts(plan)\<close>
  taken as the integer quotient truncated towards zero (also for a negative total), and
  with the two bounds computed in double precision: \<open>1 + margin\<close> and \<open>1 - margin\<close> are
  rounded to the nearest double, and so are their products with the mean. On reaching a
  continuous district the loop rejects the plan exactly when the summed population (a
  32-bit sum) is strictly greater than the computed upper bound or strictly less than the
  computed lower bound, and goes on to the next district otherwise, so a population equal
  to a computed bound is accepted; a plan is accepted exactly when every district is
  continuous and passes this test and the districts cover the registry.
\<close>

theorem population_balance_test:
  "(isValidPlan vm districts margin = Inr True \<longleftrightarrow>
      (\<exists>mean. cdiv (totalPop vm) (int (length districts)) = Inr mean \<and>
         (\<forall>d \<in> set districts. isContinuous vm d = Inr True \<and>
            \<not> (dless (dmul (ofInt mean) (dadd (ofInt 1) margin))
                       (ofInt (int32 (districtPopulation vm d)))
               \<or> dless (ofInt (int32 (districtPopulation vm d)))
                        (dmul (ofInt mean) (dsub (ofInt 1) margin)))) \<and>
         set (precinctSet vm) \<subseteq> (\<Union>d \<in> set districts. set d))) \<and>
   (isContinuous vm d = Inr True \<longrightarrow>
      isValidPlan_districts vm margin mean (d # rest) allIDs =
        (if dless (dmul (ofInt mean) (dadd (ofInt 1) margin))
                  (ofInt (int32 (districtPopulation vm d)))
            \<or> dless (ofInt (int32 (districtPopulation vm d)))
                     (dmul (ofInt mean) (dsub (ofInt 1) margin))
         then Inr False
         else isValidPlan_districts vm margin mean rest (foldl remove allIDs d))) \<and>
   (0 < n \<and> inIntRange t \<longrightarrow> cdiv t n = Inr (sgn t * (\<bar>t\<bar> div n))) \<and>
   (inIntRange (districtPopulation vm d) \<longrightarrow>
      int32 (districtPopulation vm d) = districtPopulation vm d)"
  using isValidPlan_True_iff [of vm districts margin]
    isValidPlan_districts_step [of vm d margin mean rest allIDs]
    cdiv_truncates [of n t] int32_inIntRange [of "districtPopulation vm d"]
  unfolding outsideMargin_def by blast

text \<open>
  Populations 5 and 6 against the mean 5: at the margin \<open>0.2\<close> the computed upper bound
  is 6, and the population 6 is accepted; at the margin \<open>0.1\<close> it is rejected. Two
  overlapping districts of population \<open>- 3\<close> in a registry of total population \<open>- 7\<close> are
  accepted at the margin 0: the mean is \<open>- 3\<close>, the quotient truncated towards zero.
\<close>

theorem population_balance_test_witness:
  "cdiv (totalPop oddTotalMap) (int (length singletonsPlan)) = Inr 5 \<and>
   isContinuous oddTotalMap [2] = Inr True \<and>
   inIntRange (districtPopulation oddTotalMap [2]) \<and>
   int32 (districtPopulation oddTotalMap [2]) = 6 \<and>
   dmul (ofInt 5) (dadd (ofInt 1) (roundDouble (2 / 10))) = Finite 6 \<and>
   isValidPlan oddTotalMap singletonsPlan (roundDouble (2 / 10)) = Inr True \<and>
   isValidPlan_districts oddTotalMap (roundDouble (1 / 10)) 5 [[2]] [2] = Inr False \<and>
   (0::int) < 2 \<and> inIntRange (- 7) \<and> totalPop debtMap = - 7 \<and>
   cdiv (totalPop debtMap) (int (length overlappingPlan)) = Inr (- 3) \<and>
   isValidPlan debtMap overlappingPlan (ofInt 0) = Inr True"
proof -
  have c: "isContinuous oddTotalMap [2] = Inr True"
    by code_simp
  have p: "districtPopulation oddTotalMap [2] = 6"
    by code_simp
  have r: "inIntRange (districtPopulation oddTotalMap [2])"
    by code_simp
  have b: "dmul (ofInt 5) (dadd (ofInt 1) (roundDouble (2 / 10))) = Finite 6"
    by code_simp
  have v: "isValidPlan oddTotalMap singletonsPlan (roundDouble (2 / 10)) = Inr True"
    by code_simp
  have o: "dless (dmul (ofInt 5) (dadd (ofInt 1) (roundDouble (1 / 10)))) (ofInt 6)"
    by code_simp
  have m: "cdiv (totalPop oddTotalMap) (int (length singletonsPlan)) = Inr 5"
    by code_simp
  have t: "totalPop debtMap = - 7" "int (length overlappingPlan) = 2"
    by code_simp+
  have i: "inIntRange (- 7)"
    by code_simp
  have a: "isValidPlan debtMap overlappingPlan (ofInt 0) = Inr True"
    by code_simp
  note thm1 = population_balance_test
    [where vm = oddTotalMap and districts = singletonsPlan and margin = "roundDouble (1 / 10)"
       and d = "[2]" and mean = 5 and rest = "[]" and allIDs = "[2]" and n = 2 and t = "- 7"]
  from thm1 i have q: "cdiv (- 7) 2 = Inr (sgn (- 7) * (\<bar>- 7\<bar> div 2))" by simp
  from thm1 r p have w: "int32 (districtPopulation oddTotalMap [2]) = 6" by simp
  from thm1 c w o have s: "isValidPlan_districts oddTotalMap (roundDouble (1 / 10)) 5 [[2]] [2] = Inr False"
    by simp
  from q t have q': "cdiv (totalPop debtMap) (int (length overlappingPlan)) = Inr (- 3)"
    by simp
  show ?thesis
    using m c r w b v s i t(1) q' a by simp
qed

subsection \<open>The score of an accepted plan\<close>

text \<open>
  Claim C2 as stated fails in its bound and in its formula. A district without any vote
  has \<open>d = r = 0\<close>, so \<open>repWasted 0 0 = - 1\<close>, and it adds 1 to the difference of the
  wasted votes and nothing to the total: three isolated precincts of population 1, one of
  them with a single Democratic vote and two without votes, form an accepted plan of three
  singleton districts with one vote in total and the score 200. The program computes in
  32-bit integers: one precinct with thirty million Democratic votes has the wasted-vote
  difference 29999999, the product with 100 exceeds \<open>2 ^ 31 - 1\<close> and wraps around, and
  the score is \<open>- 43\<close>, where the formula gives 99.
\<close>

theorem score_above_100_counterexample:
  "isValidPlan quietMap quietPlan POPULATION_MARGIN = Inr True \<and>
   0 < totalVotesOf quietMap quietPlan \<and>
   howGerrymandered quietMap quietPlan = Inr 200 \<and>
   efficiencyGapPercent quietMap quietPlan = 200 \<and> (200::int) \<notin> {0..100} \<and>
   isValidPlan crowdedMap [[1]] POPULATION_MARGIN = Inr True \<and>
   0 < totalVotesOf crowdedMap [[1]] \<and>
   howGerrymandered crowdedMap [[1]] = Inr (- 43) \<and>
   efficiencyGapPercent crowdedMap [[1]] = 99 \<and> (- 43::int) \<notin> {0..100} \<and>
   100 * \<bar>sumDemWasted crowdedMap [[1]] - sumRepWasted crowdedMap [[1]]\<bar> = 2999999900 \<and>
   (2 ^ 31 :: int) \<le> 2999999900 \<and> int32 2999999900 = - 1294967396"
  by code_simp

text \<open>
  Claim C2, amended. For every plan accepted at the default margin whose total vote
  count is strictly positive, and for which the Democratic and the Republican vote total
  of every district, the total vote count, and 100 times the absolute difference of the
  wasted-vote sums all lie in the range of a 32-bit integer (from \<open>- 2 ^ 31\<close> to
  \<open>2 ^ 31 - 1\<close>), \<open>howGerrymandered\<close> returns exactly
  \<open>floor(100 * |\<Sigma>demWasted - \<Sigma>repWasted| / totalVotes)\<close>, and this value is at least
  0; it is at most 100 when moreover no precinct of the plan has a negative vote count and
  every district has at least one vote.
\<close>

theorem score_formula_and_range:
  "isValidPlan vm districts POPULATION_MARGIN = Inr True \<and> 0 < totalVotesOf vm districts \<and>
   (\<forall>d \<in> set districts. inIntRange (districtDem vm d) \<and> inIntRange (districtRep vm d)) \<and>
   inIntRange (totalVotesOf vm districts) \<and>
   inIntRange (100 * \<bar>sumDemWasted vm districts - sumRepWasted vm districts\<bar>) \<longrightarrow>
     howGerrymandered vm districts = Inr (efficiencyGapPercent vm districts) \<and>
     0 \<le> efficiencyGapPercent vm districts \<and>
     ((\<forall>d \<in> set districts. (\<forall>i \<in> set d. 0 \<le> demOf vm i \<and> 0 \<le> repOf vm i)
           \<and> 0 < districtDem vm d + districtRep vm d) \<longrightarrow>
        efficiencyGapPercent vm districts \<le> 100)"
proof (intro impI conjI; elim conjE)
  assume v: "isValidPlan vm districts POPULATION_MARGIN = Inr True"
    and t: "0 < totalVotesOf vm districts"
    and r: "\<forall>d \<in> set districts. inIntRange (districtDem vm d) \<and> inIntRange (districtRep vm d)"
      "inIntRange (totalVotesOf vm districts)"
      "inIntRange (100 * \<bar>sumDemWasted vm districts - sumRepWasted vm districts\<bar>)"
  let ?gap = "\<bar>sumDemWasted vm districts - sumRepWasted vm districts\<bar>"
  have "cdiv (100 * ?gap) (totalVotesOf vm districts)
          = Inr ((100 * ?gap) div totalVotesOf vm districts)"
    using t r(3) by (intro cdiv_nonneg) auto
  then show "howGerrymandered vm districts = Inr (efficiencyGapPercent vm districts)"
    by (simp add: howGerrymandered_valid[OF v r] efficiencyGapPercent_div)
  show "0 \<le> efficiencyGapPercent vm districts"
    unfolding efficiencyGapPercent_div using t by (intro pos_imp_zdiv_nonneg_iff[THEN iffD2]) auto
  assume "\<forall>d \<in> set districts. (\<forall>i \<in> set d. 0 \<le> demOf vm i \<and> 0 \<le> repOf vm i)
            \<and> 0 < districtDem vm d + districtRep vm d"
  then have "?gap \<le> totalVotesOf vm districts" by (rule sum_wasted_gap_bound)
  then have "100 * ?gap \<le> 100 * totalVotesOf vm districts" by simp
  then have "(100 * ?gap) div totalVotesOf vm districts
               \<le> (100 * totalVotesOf vm districts) div totalVotesOf vm districts"
    using t by (intro zdiv_mono1) auto
  with t show "efficiencyGapPercent vm districts \<le> 100"
    by (simp add: efficiencyGapPercent_div)
qed

text \<open>The seven custom precincts as a single district: 2372 Democratic and 3901
  Republican votes, wasted votes 2372 and 1528, score \<open>floor(84400 / 6273) = 13\<close>.\<close>

theorem score_formula_and_range_witness:
  "isValidPlan customPrecincts wholePlan POPULATION_MARGIN = Inr True \<and>
   0 < totalVotesOf customPrecincts wholePlan \<and>
   inIntRange (districtDem customPrecincts [1, 2, 3, 4, 5, 6, 7]) \<and>
   inIntRange (districtRep customPrecincts [1, 2, 3, 4, 5, 6, 7]) \<and>
   inIntRange (totalVotesOf customPrecincts wholePlan) \<and>
   inIntRange (100 * \<bar>sumDemWasted customPrecincts wholePlan
                       - sumRepWasted customPrecincts wholePlan\<bar>) \<and>
   howGerrymandered customPrecincts wholePlan = Inr 13 \<and>
   efficiencyGapPercent customPrecincts wholePlan = 13 \<and>
   0 \<le> efficiencyGapPercent customPrecincts wholePlan \<and>
   efficiencyGapPercent customPrecincts wholePlan \<le> 100"
proof -
  have v: "isValidPlan customPrecincts wholePlan POPULATION_MARGIN = Inr True"
    by code_simp
  have t: "0 < totalVotesOf customPrecincts wholePlan"
    by code_simp
  have r: "\<forall>d \<in> set wholePlan. inIntRange (districtDem customPrecincts d)
             \<and> inIntRange (districtRep customPrecincts d)"
    by code_simp
  have r1: "inIntRange (districtDem customPrecincts [1, 2, 3, 4, 5, 6, 7])"
    "inIntRange (districtRep customPrecincts [1, 2, 3, 4, 5, 6, 7])"
    by code_simp+
  have r2: "inIntRange (totalVotesOf customPrecincts wholePlan)"
    by code_simp
  have r3: "inIntRange (100 * \<bar>sumDemWasted customPrecincts wholePlan
                                - sumRepWasted customPrecincts wholePlan\<bar>)"
    by code_simp
  have n: "\<forall>d \<in> set wholePlan.
             (\<forall>i \<in> set d. 0 \<le> demOf customPrecincts i \<and> 0 \<le> repOf customPrecincts i)
             \<and> 0 < districtDem customPrecincts d + districtRep customPrecincts d"
    by code_simp
  have e: "efficiencyGapPercent customPrecincts wholePlan = 13"
    by code_simp
  from score_formula_and_range [of customPrecincts wholePlan] v t r r2 r3 n
  have "howGerrymandered customPrecincts wholePlan
          = Inr (efficiencyGapPercent customPrecincts wholePlan)
        \<and> 0 \<le> efficiencyGapPercent customPrecincts wholePlan
        \<and> efficiencyGapPercent customPrecincts wholePlan \<le> 100"
    by blast
  with v t r1 r2 r3 e show ?thesis by simp
qed

subsection \<open>The district count\<close>




subsection \<open>The choice of the biased builder\<close>

text \<open>
  Claim C9 at a concrete growth step. The district holds precinct 1 (5 Democratic votes),
  Republicans are favoured, and the free frontier is \<open>{2, 3}\<close>. Adding precinct 2 gives
  the differential \<open>demWasted 5 3 - repWasted 5 3 = - 2\<close>, adding precinct 3 gives
  \<open>demWasted 5 1 - repWasted 5 1 = 2\<close>. The loop starts from \<open>maxWaste = 4\<close>, the
  differential of the district as it is, so no candidate exceeds it and \<open>maxID\<close> stays
  the first frontier precinct 2: the builder recurses into precinct 2 and returns the
  district \<open>{1, 2}\<close>, although precinct 3 has the greater differential.
\<close>

theorem first_candidate_kept_below_current:
  "demWasted 5 0 - repWasted 5 0 = 4 \<and>
   demWasted (5 + 0) (0 + 3) - repWasted (5 + 0) (0 + 3) = - 2 \<and>
   demWasted (5 + 0) (0 + 1) - repWasted (5 + 0) (0 + 1) = 2 \<and>
   (case createGerrymanderedDistrict_select starMap \<lparr>dem = 5, rep = 0, pop = 1\<rparr> True
           [2, 3] [2, 3] 4 2 zeroes of
      Inl e \<Rightarrow> Inl e
    | Inr (maxWaste, maxID, g) \<Rightarrow> Inr (maxWaste, maxID)) = Inr (4, 2) \<and>
   (case createGerrymanderedDistrict starMap [] \<lparr>dem = 0, rep = 0, pop = 0\<rparr> 1 1 True []
           [1, 2, 3] zeroes of
      Inl e \<Rightarrow> Inl e
    | Inr (district, demo, adj, ids, g) \<Rightarrow> Inr (district, ids)) = Inr ([1, 2], [3])"
  by code_simp

subsection \<open>The plan of the random builder\<close>

text \<open>
  Claim C10 as stated fails when the population target \<open>totalPop / totalDistricts\<close> is
  not positive: \<open>createRandomDistrict\<close> tests \<open>districtPop >= maxPop\<close> before it adds
  the seed. Over one precinct of population 1 and with 2 districts the target is 0; the
  district grown from the free seed 1 is empty and precinct 1 stays free, the empty
  district is added to the plan, the vector of candidates runs out while the free-id set
  is not empty, and the helper fails on the index into the empty vector.
\<close>

theorem empty_district_counterexample:
  "cdiv (totalPop loneMap) 2 = Inr 0 \<and>
   (case createRandomDistrict loneMap [] 1 0 0 [1] zeroes of
      Inl e \<Rightarrow> Inl e
    | Inr (district, districtPop, ids, g) \<Rightarrow> Inr (district, ids)) = Inr ([], [1]) \<and>
   (case createRandomPlanHelper loneMap [] 2 [1] zeroes of
      Inl e \<Rightarrow> Inl e
    | Inr (districts, ids, g) \<Rightarrow> Inr (districts, ids)) = Inl (IndexOutOfRange 0)"
  by code_simp

text \<open>
  Claim C10, amended. For every non-empty free-id set of registered precincts and every
  district count for which the target \<open>totalPop / totalDistricts\<close> is positive,
  \<open>createRandomPlanHelper\<close>, started with an empty plan, returns; its districts are
  non-empty and pairwise disjoint, their union is the initial free-id set, and the
  free-id set is empty on return. Every call of \<open>createRandomDistrict\<close> on a free
  precinct returns, and the ids it has added to the district are exactly the ids it has
  taken out of the free-id set.
\<close>

theorem createRandomPlanHelper_partition:
  "(ids \<noteq> [] \<and> set ids \<subseteq> registered vm \<and>
    cdiv (totalPop vm) totalDistricts = Inr maxPop \<and> 0 < maxPop \<longrightarrow>
      (\<exists>districts' g'.
         createRandomPlanHelper vm [] totalDistricts ids g = Inr (districts', [], g') \<and>
         [] \<notin> set districts' \<and> pairwiseDisjoint districts' \<and>
         (\<Union>d \<in> set districts'. set d) = set ids)) \<and>
   (curID \<in> set free \<and> set free \<subseteq> registered vm \<longrightarrow>
      (\<exists>district' districtPop' free' g'.
         createRandomDistrict vm district curID districtPop target free g
           = Inr (district', districtPop', free', g') \<and>
         set free' \<subseteq> set free \<and> set district' = set district \<union> (set free - set free')))"
proof (intro conjI impI; elim conjE)
  assume r: "set ids \<subseteq> registered vm" and m: "cdiv (totalPop vm) totalDistricts = Inr maxPop"
    and p: "0 < maxPop"
  have "set ids \<subseteq> set (setToVector ids)" by (simp add: set_setToVector)
  from createRandomPlanHelper_loop_partition[OF this r p, of "[]" g]
  obtain districts' g' where
    "createRandomPlanHelper_loop vm maxPop [] ids (setToVector ids) g = Inr (districts', [], g')"
    "[] \<notin> set districts'" "pairwiseDisjoint districts'"
    "(\<Union>d \<in> set districts'. set d) = (\<Union>d \<in> set []. set d) \<union> set ids"
    by (auto simp: pairwiseDisjoint_def)
  with m show "\<exists>districts' g'.
         createRandomPlanHelper vm [] totalDistricts ids g = Inr (districts', [], g') \<and>
         [] \<notin> set districts' \<and> pairwiseDisjoint districts' \<and>
         (\<Union>d \<in> set districts'. set d) = set ids"
    by (simp add: createRandomPlanHelper_def)
next
  assume "curID \<in> set free" "set free \<subseteq> registered vm"
  from createRandomDistrict_takes_free(1)[OF this, of district districtPop target g]
  show "\<exists>district' districtPop' free' g'.
         createRandomDistrict vm district curID districtPop target free g
           = Inr (district', districtPop', free', g') \<and>
         set free' \<subseteq> set free \<and> set district' = set district \<union> (set free - set free')"
    by blast
qed

theorem createRandomPlanHelper_partition_witness:
  "precinctSet customPrecincts \<noteq> [] \<and>
   set (precinctSet customPrecincts) \<subseteq> registered customPrecincts \<and>
   cdiv (totalPop customPrecincts) 3 = Inr 4309 \<and> (0::int) < 4309 \<and>
   (\<exists>districts' g'.
      createRandomPlanHelper customPrecincts [] 3 (precinctSet customPrecincts) zeroes
        = Inr (districts', [], g') \<and>
      [] \<notin> set districts' \<and> pairwiseDisjoint districts' \<and>
      (\<Union>d \<in> set districts'. set d) = set (precinctSet customPrecincts)) \<and>
   50004 \<in> set (precinctSet customPrecincts) \<and>
   (\<exists>district' districtPop' free' g'.
      createRandomDistrict customPrecincts [] 50004 0 4309 (precinctSet customPrecincts) zeroes
        = Inr (district', districtPop', free', g') \<and>
      set free' \<subseteq> set (precinctSet customPrecincts) \<and>
      set district' = set [] \<union> (set (precinctSet customPrecincts) - set free'))"
proof -
  have a: "precinctSet customPrecincts \<noteq> []"
    by code_simp
  have b: "set (precinctSet customPrecincts) \<subseteq> registered customPrecincts"
    by (simp add: registered_def)
  have c: "cdiv (totalPop customPrecincts) 3 = Inr 4309"
    by code_simp
  have d: "50004 \<in> set (precinctSet customPrecincts)"
    by code_simp
  from createRandomPlanHelper_partition
    [where ids = "precinctSet customPrecincts" and vm = customPrecincts and totalDistricts = 3
       and maxPop = 4309 and g = zeroes and curID = 50004 and free = "precinctSet customPrecincts"
       and district = "[]" and districtPop = 0 and target = 4309]
    a b c d
  show ?thesis by simp
qed

end
